theory Spec2Isabelle
  imports Complex_Main "HOL-Library.Word" "HOL-Library.Log_Nat"
begin

section \<open>Data model of the index (cudamapper/src/index\_gpu.cuh)\<close>

text \<open>
  The index keeps sketch elements in four parallel data arrays and a table of unique
  representations with the offset of the first occurrence of each of them.

  Conventions of this embedding:
  \<^item> a member \<open>x_\<close> of the class is the record field \<open>x_m\<close> (an Isabelle name cannot end
    in an underscore); the members \<open>representations_d\<close> and \<open>rest_d\<close> of the generated
    sketch elements are the fields \<open>generated_representations_d\<close> and
    \<open>generated_rest_d\<close>, after the locals of \<open>generate_index\<close> that take them;
  \<^item> \<open>representation_t\<close> is a 64-bit word, \<open>read_id_t\<close> and \<open>position_in_read_t\<close> are
    32-bit words, \<open>kmer_size_\<close> and \<open>window_size_\<close> are 64-bit words, with the wrap-around
    of the source;
  \<^item> array sizes, array offsets (\<open>std::uint32_t\<close> in the source), occurrence counts and
    \<open>total_basepairs\<close> are natural numbers: the embedding describes indices whose number
    of sketch elements fits the 32-bit offsets of \<open>first_occurrence_of_representations\<close>
    and whose reads fit in memory, where no such quantity wraps;
  \<^item> a \<open>double\<close> is the rational number that it denotes, and every operation on
    \<open>double\<close>s rounds its exact result to the nearest binary64 number, ties to even
    (\<open>binary64\<close> below). Infinities, NaNs and the overflow of the exponent are not
    modelled: the numbers that the filter computes are far below \<open>2 ^ 1024\<close>;
  \<^item> CUDA streams and allocators carry no data and are left out; work issued on a
    stream is modelled at the place where it is issued. Failures of the CUDA runtime,
    which \<open>GW_CU_CHECK_ERR\<close> turns into the end of the program, are not modelled: every
    allocation, copy and kernel launch succeeds.

  Modelled from the spec: the headers that declare \<open>representation_t\<close>, \<open>read_id_t\<close>,
  \<open>position_in_read_t\<close>, \<open>ArrayBlock\<close>, \<open>IndexDescriptor\<close>, \<open>IndexHostCopy\<close>,
  \<open>io::FastaParser\<close>, \<open>IndexNotReadyException\<close> and the sketch element types are not
  part of the sources at hand. The types below have the fields that index\_gpu.cuh
  reads and writes, and follow section 3 of the specification: a sketch element is a
  representation (an unsigned integer key), a read id, a position in the read and a
  direction (forward or reverse complement); an index descriptor is a contiguous range
  of read ids. The conversion of the packed direction to \<open>DirectionOfRepresentation\<close> is
  the identity.
\<close>

type_synonym representation_t = "64 word"
type_synonym read_id_t = "32 word"
type_synonym position_in_read_t = "32 word"

datatype DirectionOfRepresentation = FORWARD | REVERSE

record ReadidPositionDirection =
  read_id_m :: read_id_t
  position_in_read_m :: position_in_read_t
  direction_m :: DirectionOfRepresentation

record ArrayBlock =
  first_element_m :: nat
  block_size_m :: "32 word"

record GeneratedSketchElements =
  generated_representations_d :: "representation_t list"
  generated_rest_d :: "ReadidPositionDirection list"

record FastaSequence =
  name :: string
  seq :: string

type_synonym FastaParser = "read_id_t \<Rightarrow> FastaSequence"

record IndexDescriptor =
  first_read :: read_id_t
  number_of_reads_in_descriptor :: read_id_t

text \<open>
  \<open>SketchElementImpl::generate_sketch_elements\<close> is a template parameter of the class:
  the embedding takes it as a function of the number of valid reads, \<open>kmer_size\<close>,
  \<open>window_size\<close>, \<open>first_read_id\<close>, the merged basepairs, the section table and
  \<open>hash_representations\<close>.
\<close>

type_synonym SketchElementImpl =
  "nat \<Rightarrow> 64 word \<Rightarrow> 64 word \<Rightarrow> read_id_t \<Rightarrow> string \<Rightarrow> ArrayBlock list \<Rightarrow> bool
     \<Rightarrow> GeneratedSketchElements"

record IndexHostCopy =
  hc_representations :: "representation_t list"
  hc_read_ids :: "read_id_t list"
  hc_positions_in_reads :: "position_in_read_t list"
  hc_directions_of_reads :: "DirectionOfRepresentation list"
  hc_unique_representations :: "representation_t list"
  hc_first_occurrence_of_representations :: "nat list"
  hc_first_read_id :: read_id_t
  hc_kmer_size :: "64 word"
  hc_window_size :: "64 word"
  hc_number_of_reads :: read_id_t
  hc_number_of_basepairs_in_longest_read :: position_in_read_t

datatype WayOfConstruciton = generation | copy

record IndexGPU =
  representations_d_m :: "representation_t list"
  read_ids_d_m :: "read_id_t list"
  positions_in_reads_d_m :: "position_in_read_t list"
  directions_of_reads_d_m :: "DirectionOfRepresentation list"
  unique_representations_d_m :: "representation_t list"
  first_occurrence_of_representations_d_m :: "nat list"
  first_read_id_m :: read_id_t
  kmer_size_m :: "64 word"
  window_size_m :: "64 word"
  number_of_reads_m :: read_id_t
  number_of_basepairs_in_longest_read_m :: position_in_read_t
  way_of_construciton_m :: WayOfConstruciton
  is_ready_m :: bool
  index_host_copy_source_m :: "IndexHostCopy option"

datatype IndexNotReadyException = IndexNotReadyException string

section \<open>Device buffers and the thrust primitives\<close>

text \<open>
  A \<open>device_buffer\<close> of \<open>n\<close> elements is allocated with unspecified contents. The
  embedding names the value that the fresh cells happen to hold (a zero, or \<open>FORWARD\<close>
  for a direction); the kernels below overwrite every cell, and the lemmas about them
  hold for every initial content of the output buffers.
\<close>

definition device_buffer :: "nat \<Rightarrow> 'a \<Rightarrow> 'a list" where
  "device_buffer n c = replicate n c"

text \<open>\<open>thrust::exclusive_scan\<close> and \<open>thrust::inclusive_scan\<close> with addition, from 0.\<close>

fun exclusive_scan_from :: "nat \<Rightarrow> nat list \<Rightarrow> nat list" where
  "exclusive_scan_from acc [] = []"
| "exclusive_scan_from acc (x # xs) = acc # exclusive_scan_from (acc + x) xs"

definition exclusive_scan :: "nat list \<Rightarrow> nat list" where
  "exclusive_scan xs = exclusive_scan_from 0 xs"

fun inclusive_scan_from :: "nat \<Rightarrow> nat list \<Rightarrow> nat list" where
  "inclusive_scan_from acc [] = []"
| "inclusive_scan_from acc (x # xs) = (acc + x) # inclusive_scan_from (acc + x) xs"

definition inclusive_scan :: "nat list \<Rightarrow> nat list" where
  "inclusive_scan xs = inclusive_scan_from 0 xs"

text \<open>
  \<open>thrust::adjacent_difference\<close>: the first element is copied, every other element is
  replaced by its difference to its left neighbour.
\<close>

fun adjacent_difference :: "nat list \<Rightarrow> nat list" where
  "adjacent_difference [] = []"
| "adjacent_difference (x # xs) = x # map2 (\<lambda>a b. b - a) (x # xs) xs"

text \<open>
  \<open>thrust::stable_sort_by_key\<close>: the keys are sorted ascending, the values are permuted
  with them, and elements with equal keys keep their order (\<open>sort_key\<close> is the stable
  insertion sort of the list library).
\<close>

definition stable_sort_by_key :: "'k::linorder list \<Rightarrow> 'v list \<Rightarrow> 'k list \<times> 'v list" where
  "stable_sort_by_key ks vs =
     (let s = sort_key fst (zip ks vs) in (map fst s, map snd s))"

section \<open>Grouping: first occurrences of representations\<close>

text \<open>
  Modelled from the spec: the bodies of \<open>find_first_occurrences_of_representations\<close> and
  of its kernel are not part of the sources at hand (index\_gpu.cuh only declares and
  documents them). The definitions follow section 4.2 of the specification and the
  documented kernel signature: a position \<open>i\<close> is a group boundary if \<open>i = 0\<close> or
  \<open>representations[i] \<noteq> representations[i - 1]\<close>; every element gets a group ordinal by an
  inclusive scan over the boundary flags (\<open>representation_index_mask_d\<close>); every
  boundary position scatters its representation and its index to slot \<open>ordinal - 1\<close>;
  the number of elements is appended as the final sentinel.
\<close>

definition is_group_boundary :: "representation_t list \<Rightarrow> nat \<Rightarrow> bool" where
  "is_group_boundary input_representations_d i =
     (i = 0 \<or> input_representations_d ! i \<noteq> input_representations_d ! (i - 1))"

text \<open>
  Modelled from the spec: \<open>representation_index_mask_d\<close>, the group ordinal of every
  element, is the inclusive scan over the boundary flags.
\<close>

definition representation_index_mask :: "representation_t list \<Rightarrow> nat list" where
  "representation_index_mask input_representations_d =
     inclusive_scan
       (map (\<lambda>i. if is_group_boundary input_representations_d i then 1 else 0)
            [0..<length input_representations_d])"

text \<open>
  Modelled from the spec: the kernel scatters, for every boundary position, the index
  and the representation to slot \<open>ordinal - 1\<close> of the two output arrays.
\<close>

definition find_first_occurrences_of_representations_kernel ::
  "nat list \<Rightarrow> representation_t list \<Rightarrow> nat \<Rightarrow> nat list \<times> representation_t list
     \<Rightarrow> nat list \<times> representation_t list" where
  "find_first_occurrences_of_representations_kernel representation_index_mask_d
       input_representations_d number_of_input_elements outs =
     fold (\<lambda>i (starting_index_of_each_representation_d, unique_representations_d).
             if is_group_boundary input_representations_d i
             then (starting_index_of_each_representation_d
                     [representation_index_mask_d ! i - 1 := i],
                   unique_representations_d
                     [representation_index_mask_d ! i - 1 := input_representations_d ! i])
             else (starting_index_of_each_representation_d, unique_representations_d))
          [0..<number_of_input_elements] outs"

text \<open>
  Modelled from the spec: the number of unique representations is the last group
  ordinal (0 for no element); the output arrays have that many elements, and the number
  of elements is appended to the first occurrences.
\<close>

definition find_first_occurrences_of_representations ::
  "representation_t list \<Rightarrow> representation_t list \<times> nat list" where
  "find_first_occurrences_of_representations input_representations_d =
     (let number_of_input_elements = length input_representations_d;
          representation_index_mask_d = representation_index_mask input_representations_d;
          number_of_unique_representations =
            (if number_of_input_elements = 0 then 0 else last representation_index_mask_d);
          outs = find_first_occurrences_of_representations_kernel
                   representation_index_mask_d input_representations_d
                   number_of_input_elements
                   (device_buffer number_of_unique_representations 0,
                    device_buffer number_of_unique_representations 0)
      in (snd outs, fst outs @ [number_of_input_elements]))"

section \<open>Splitting the packed rest into separate arrays\<close>

text \<open>
  \<open>copy_rest_to_separate_arrays\<close>: thread \<open>i\<close> (for \<open>i < total_elements\<close>) writes element
  \<open>i\<close> of the three output arrays. The threads write distinct cells, so the kernel is the
  sequence of their writes.
\<close>

definition copy_rest_to_separate_arrays ::
  "ReadidPositionDirection list
     \<Rightarrow> read_id_t list \<times> position_in_read_t list \<times> DirectionOfRepresentation list
     \<Rightarrow> nat
     \<Rightarrow> read_id_t list \<times> position_in_read_t list \<times> DirectionOfRepresentation list" where
  "copy_rest_to_separate_arrays rest_d outs total_elements =
     fold (\<lambda>i (read_ids_d, positions_in_reads_d, directions_of_reads_d).
             (read_ids_d[i := read_id_m (rest_d ! i)],
              positions_in_reads_d[i := position_in_read_m (rest_d ! i)],
              directions_of_reads_d[i := direction_m (rest_d ! i)]))
          [0..<total_elements] outs"

section \<open>Filtering out the most common representations\<close>

text \<open>
  Modelled from the spec: the body of
  \<open>compress_unique_representations_after_filtering_kernel\<close> is not part of the sources at
  hand (index\_gpu.cuh declares and documents it). The definition follows section 4.3,
  step 5, of the specification and the documented signature: a surviving group \<open>i\<close> (one
  whose new index differs from the new index of its right neighbour) moves to slot
  \<open>new_unique_representation_index_d[i]\<close>, a filtered group contributes nothing, and the
  additional last element of the first occurrences becomes the new sentinel.
\<close>

definition compress_unique_representations_after_filtering_kernel ::
  "nat \<Rightarrow> representation_t list \<Rightarrow> nat list \<Rightarrow> nat list
     \<Rightarrow> representation_t list \<times> nat list \<Rightarrow> representation_t list \<times> nat list" where
  "compress_unique_representations_after_filtering_kernel
       number_of_unique_representation_before_compression
       unique_representations_before_compression_d
       first_occurrence_of_representation_before_compression_d
       new_unique_representation_index_d outs =
     fold (\<lambda>i (unique_representations_after_compression_d,
                first_occurrence_of_representation_after_compression_d).
             if i = number_of_unique_representation_before_compression
             then (unique_representations_after_compression_d,
                   first_occurrence_of_representation_after_compression_d
                     [new_unique_representation_index_d ! i :=
                        first_occurrence_of_representation_before_compression_d ! i])
             else if new_unique_representation_index_d ! i
                       \<noteq> new_unique_representation_index_d ! (i + 1)
             then (unique_representations_after_compression_d
                     [new_unique_representation_index_d ! i :=
                        unique_representations_before_compression_d ! i],
                   first_occurrence_of_representation_after_compression_d
                     [new_unique_representation_index_d ! i :=
                        first_occurrence_of_representation_before_compression_d ! i])
             else (unique_representations_after_compression_d,
                   first_occurrence_of_representation_after_compression_d))
          [0..<number_of_unique_representation_before_compression + 1] outs"

text \<open>
  \<open>compress_data_arrays_after_filtering_kernel\<close> is launched with one thread block per
  unique representation. \<open>compress_data_arrays_block\<close> is the work of block
  \<open>representation_index_before_compression\<close>: its threads together run the loop body for
  every \<open>i\<close> below the number of sketch elements of the representation, each \<open>i\<close> once.
  Blocks and threads write distinct cells, so the kernel is the sequence of the blocks.
\<close>

definition compress_data_arrays_block ::
  "nat \<Rightarrow> nat list \<Rightarrow> nat list \<Rightarrow> nat list \<Rightarrow> nat list
     \<Rightarrow> representation_t list \<Rightarrow> read_id_t list \<Rightarrow> position_in_read_t list
     \<Rightarrow> DirectionOfRepresentation list
     \<Rightarrow> nat
     \<Rightarrow> representation_t list \<times> read_id_t list \<times> position_in_read_t list
          \<times> DirectionOfRepresentation list
     \<Rightarrow> representation_t list \<times> read_id_t list \<times> position_in_read_t list
          \<times> DirectionOfRepresentation list" where
  "compress_data_arrays_block number_of_unique_representations
       number_of_sketch_elements_with_representation_before_compression_d
       first_occurrence_of_representation_before_filtering_d
       first_occurrence_of_representation_after_compression_d
       unique_representation_index_after_compression_d
       representations_before_compression_d read_ids_before_compression_d
       positions_in_reads_before_compression_d
       directions_of_representations_before_compression_d
       representation_index_before_compression outs =
     (if representation_index_before_compression \<ge> number_of_unique_representations
      then outs
      else
        let sketch_elements_with_this_representation =
              number_of_sketch_elements_with_representation_before_compression_d
                ! representation_index_before_compression
        in if 0 = sketch_elements_with_this_representation then outs
           else
             let first_occurrence_index_before_filtering =
                   first_occurrence_of_representation_before_filtering_d
                     ! representation_index_before_compression;
                 first_occurrence_index_after_compression =
                   first_occurrence_of_representation_after_compression_d
                     ! (unique_representation_index_after_compression_d
                          ! representation_index_before_compression)
             in fold (\<lambda>i (representations_after_compression_d,
                           read_ids_after_compression_d,
                           positions_in_reads_after_compression_d,
                           directions_of_representations_after_compression_d).
                        (representations_after_compression_d
                           [first_occurrence_index_after_compression + i :=
                              representations_before_compression_d
                                ! (first_occurrence_index_before_filtering + i)],
                         read_ids_after_compression_d
                           [first_occurrence_index_after_compression + i :=
                              read_ids_before_compression_d
                                ! (first_occurrence_index_before_filtering + i)],
                         positions_in_reads_after_compression_d
                           [first_occurrence_index_after_compression + i :=
                              positions_in_reads_before_compression_d
                                ! (first_occurrence_index_before_filtering + i)],
                         directions_of_representations_after_compression_d
                           [first_occurrence_index_after_compression + i :=
                              directions_of_representations_before_compression_d
                                ! (first_occurrence_index_before_filtering + i)]))
                     [0..<sketch_elements_with_this_representation] outs)"

definition compress_data_arrays_after_filtering_kernel ::
  "nat \<Rightarrow> nat \<Rightarrow> nat list \<Rightarrow> nat list \<Rightarrow> nat list \<Rightarrow> nat list
     \<Rightarrow> representation_t list \<Rightarrow> read_id_t list \<Rightarrow> position_in_read_t list
     \<Rightarrow> DirectionOfRepresentation list
     \<Rightarrow> representation_t list \<times> read_id_t list \<times> position_in_read_t list
          \<times> DirectionOfRepresentation list
     \<Rightarrow> representation_t list \<times> read_id_t list \<times> position_in_read_t list
          \<times> DirectionOfRepresentation list" where
  "compress_data_arrays_after_filtering_kernel number_of_blocks
       number_of_unique_representations
       number_of_sketch_elements_with_representation_before_compression_d
       first_occurrence_of_representation_before_filtering_d
       first_occurrence_of_representation_after_compression_d
       unique_representation_index_after_compression_d
       representations_before_compression_d read_ids_before_compression_d
       positions_in_reads_before_compression_d
       directions_of_representations_before_compression_d outs =
     fold (compress_data_arrays_block number_of_unique_representations
             number_of_sketch_elements_with_representation_before_compression_d
             first_occurrence_of_representation_before_filtering_d
             first_occurrence_of_representation_after_compression_d
             unique_representation_index_after_compression_d
             representations_before_compression_d read_ids_before_compression_d
             positions_in_reads_before_compression_d
             directions_of_representations_before_compression_d)
          [0..<number_of_blocks] outs"

text \<open>
  The arithmetic of \<open>double\<close> (IEEE 754 binary64, rounding to nearest, ties to even).
  \<open>round_to_nearest_even y\<close> is the integer nearest to \<open>y\<close>, the even one of the two when
  \<open>y\<close> lies halfway. \<open>binary_exponent x\<close> is the exponent \<open>e\<close> with
  \<open>2 ^ e \<le> \<bar>x\<bar> < 2 ^ (e + 1)\<close> of a number other than 0, found from the bit lengths of
  its numerator and denominator. \<open>binary64 x\<close> rounds \<open>x\<close> to a multiple of the spacing of
  the binary64 numbers around it: 53 significant bits, and the spacing \<open>2 ^ - 1074\<close> of
  the subnormal numbers below \<open>2 ^ - 1022\<close>.
\<close>

definition round_to_nearest_even :: "rat \<Rightarrow> int" where
  "round_to_nearest_even y =
     (let f = \<lfloor>y\<rfloor>;
          d = y - of_int f
      in if d < 1 / 2 then f
         else if 1 / 2 < d then f + 1
         else if even f then f else f + 1)"

definition binary_exponent :: "rat \<Rightarrow> int" where
  "binary_exponent x =
     (let (a, b) = quotient_of \<bar>x\<bar>;
          k = bitlen a - bitlen b
      in if 2 powi k \<le> \<bar>x\<bar> then k else k - 1)"

definition binary64 :: "rat \<Rightarrow> rat" where
  "binary64 x =
     (if x = 0 then 0
      else let e = max (binary_exponent x) (- 1022);
               quantum = 2 powi (e - 52)
           in of_int (round_to_nearest_even (x / quantum)) * quantum)"

text \<open>
  The filtering threshold: \<open>static_cast<std::uint64_t>(total_sketch_elements *
  filtering_parameter + 0.001)\<close>. \<open>total_sketch_elements\<close> is a \<open>std::size_t\<close> and is
  converted to \<open>double\<close> for the product; the conversion, the product and the sum are
  rounded one after the other, and \<open>0.001\<close> is the binary64 number nearest to
  \<open>1 / 1000\<close>. The cast truncates, which is the floor when \<open>filtering_parameter\<close> is not
  negative.
\<close>

definition filtering_threshold :: "nat \<Rightarrow> rat \<Rightarrow> nat" where
  "filtering_threshold total_sketch_elements filtering_parameter =
     nat \<lfloor>binary64 (binary64 (binary64 (of_nat total_sketch_elements) * filtering_parameter)
                     + binary64 (1 / 1000))\<rfloor>"

text \<open>
  The number of sketch elements of every representation, with the additional 0 at the
  end: \<open>thrust::adjacent_difference\<close> over the first occurrences without their first
  element, written to the front of a buffer whose last element is set to 0. The filter
  is called with first occurrences that have at least one element and do not decrease,
  so that no difference is negative.
\<close>

definition number_of_sketch_elements_with_each_representation :: "nat list \<Rightarrow> nat list" where
  "number_of_sketch_elements_with_each_representation first_occurrence_of_representations_d =
     adjacent_difference (tl first_occurrence_of_representations_d) @ [0]"

text \<open>\<open>thrust::replace_if\<close> over all elements but the last one.\<close>

definition mark_representations_for_filtering_out :: "nat \<Rightarrow> nat list \<Rightarrow> nat list" where
  "mark_representations_for_filtering_out filtering_threshold_value counts =
     map (\<lambda>val. if val \<ge> filtering_threshold_value then 0 else val) (butlast counts)
       @ [last counts]"

text \<open>\<open>thrust::transform_exclusive_scan\<close> over the counting iterator.\<close>

definition unique_representation_index_after_filtering :: "nat \<Rightarrow> nat list \<Rightarrow> nat list" where
  "unique_representation_index_after_filtering number_of_unique_representations counts =
     exclusive_scan
       (map (\<lambda>unique_representation_index.
               if unique_representation_index < number_of_unique_representations
               then (if 0 = counts ! unique_representation_index then 0 else 1)
               else 0)
            [0..<number_of_unique_representations + 1])"

definition filter_out_most_common_representations ::
  "rat \<Rightarrow> representation_t list \<Rightarrow> read_id_t list \<Rightarrow> position_in_read_t list
     \<Rightarrow> DirectionOfRepresentation list \<Rightarrow> representation_t list \<Rightarrow> nat list
     \<Rightarrow> representation_t list \<times> read_id_t list \<times> position_in_read_t list
          \<times> DirectionOfRepresentation list \<times> representation_t list \<times> nat list" where
  "filter_out_most_common_representations filtering_parameter representations_d read_ids_d
       positions_in_reads_d directions_of_representations_d unique_representations_d
       first_occurrence_of_representations_d =
     (let number_of_sketch_elements_with_each_representation_d =
            mark_representations_for_filtering_out
              (filtering_threshold (length representations_d) filtering_parameter)
              (number_of_sketch_elements_with_each_representation
                 first_occurrence_of_representations_d);
          first_occurrence_of_representation_after_filtering_d =
            exclusive_scan number_of_sketch_elements_with_each_representation_d;
          number_of_unique_representations = length unique_representations_d;
          unique_representation_index_after_filtering_d =
            unique_representation_index_after_filtering number_of_unique_representations
              number_of_sketch_elements_with_each_representation_d;
          number_of_unique_representations_after_compression =
            last unique_representation_index_after_filtering_d;
          unique_outs =
            compress_unique_representations_after_filtering_kernel
              (length unique_representations_d) unique_representations_d
              first_occurrence_of_representation_after_filtering_d
              unique_representation_index_after_filtering_d
              (device_buffer number_of_unique_representations_after_compression 0,
               device_buffer (number_of_unique_representations_after_compression + 1) 0);
          unique_representations_after_compression_d = fst unique_outs;
          first_occurrence_of_representations_after_compression_d = snd unique_outs;
          number_of_sketch_elements_after_compression =
            last first_occurrence_of_representations_after_compression_d;
          data_outs =
            compress_data_arrays_after_filtering_kernel
              (length unique_representations_d) (length unique_representations_d)
              number_of_sketch_elements_with_each_representation_d
              first_occurrence_of_representations_d
              first_occurrence_of_representations_after_compression_d
              unique_representation_index_after_filtering_d
              representations_d read_ids_d positions_in_reads_d
              directions_of_representations_d
              (device_buffer number_of_sketch_elements_after_compression 0,
               device_buffer number_of_sketch_elements_after_compression 0,
               device_buffer number_of_sketch_elements_after_compression 0,
               device_buffer number_of_sketch_elements_after_compression FORWARD)
      in (fst data_outs, fst (snd data_outs), fst (snd (snd data_outs)),
          snd (snd (snd data_outs)),
          unique_representations_after_compression_d,
          first_occurrence_of_representations_after_compression_d))"

section \<open>Generation of the index\<close>

text \<open>
  The state of the loop of \<open>generate_index\<close> that determines the number of basepairs of
  each read: the three local variables and the member
  \<open>number_of_basepairs_in_longest_read_\<close>.
\<close>

record BasepairCount =
  total_basepairs :: nat
  read_id_to_basepairs_section_h :: "ArrayBlock list"
  local_to_global_read_id :: "read_id_t list"
  longest_read :: position_in_read_t

definition read_qualifies :: "64 word \<Rightarrow> 64 word \<Rightarrow> string \<Rightarrow> bool" where
  "read_qualifies kmer_size window_size read_basepairs =
     ((of_nat (length read_basepairs) :: 64 word) \<ge> window_size + kmer_size - 1)"

definition count_basepairs_of_read ::
  "FastaParser \<Rightarrow> 64 word \<Rightarrow> 64 word \<Rightarrow> read_id_t \<Rightarrow> BasepairCount \<Rightarrow> BasepairCount" where
  "count_basepairs_of_read parser kmer_size window_size read_id st =
     (let read_basepairs = seq (parser read_id)
      in if read_qualifies kmer_size window_size read_basepairs
         then st\<lparr>local_to_global_read_id := local_to_global_read_id st @ [read_id],
                 read_id_to_basepairs_section_h :=
                   read_id_to_basepairs_section_h st
                     @ [\<lparr>first_element_m = total_basepairs st,
                          block_size_m = of_nat (length read_basepairs)\<rparr>],
                 total_basepairs := total_basepairs st + length read_basepairs,
                 longest_read := max (longest_read st) (of_nat (length read_basepairs))\<rparr>
         else st)"

definition count_basepairs ::
  "FastaParser \<Rightarrow> 64 word \<Rightarrow> 64 word \<Rightarrow> read_id_t \<Rightarrow> read_id_t \<Rightarrow> BasepairCount" where
  "count_basepairs parser kmer_size window_size first_read_id past_the_last_read_id =
     fold (count_basepairs_of_read parser kmer_size window_size)
          (map of_nat [unat first_read_id..<unat past_the_last_read_id])
          \<lparr>total_basepairs = 0, read_id_to_basepairs_section_h = [],
           local_to_global_read_id = [], longest_read = 0\<rparr>"

text \<open>Copying the basepairs of each valid read into one big array.\<close>

definition merge_basepairs :: "FastaParser \<Rightarrow> BasepairCount \<Rightarrow> string" where
  "merge_basepairs parser c =
     fold (\<lambda>local_read_id merged_basepairs_h.
             let read_basepairs = seq (parser (local_to_global_read_id c ! local_read_id));
                 first_element =
                   first_element_m (read_id_to_basepairs_section_h c ! local_read_id)
             in take first_element merged_basepairs_h @ read_basepairs
                  @ drop (first_element + length read_basepairs) merged_basepairs_h)
          [0..<length (local_to_global_read_id c)]
          (replicate (total_basepairs c) (CHR 0x00))"

text \<open>The call of the sketch element generator in \<open>generate_index\<close>.\<close>

definition generated_sketch_elements ::
  "SketchElementImpl \<Rightarrow> FastaParser \<Rightarrow> 64 word \<Rightarrow> 64 word \<Rightarrow> read_id_t \<Rightarrow> read_id_t \<Rightarrow> bool
     \<Rightarrow> GeneratedSketchElements" where
  "generated_sketch_elements generate_sketch_elements parser kmer_size window_size
       first_read_id past_the_last_read_id hash_representations =
     (let c = count_basepairs parser kmer_size window_size first_read_id
                past_the_last_read_id
      in generate_sketch_elements (length (local_to_global_read_id c)) kmer_size
           window_size first_read_id (merge_basepairs parser c)
           (read_id_to_basepairs_section_h c) hash_representations)"

text \<open>
  The part of \<open>generate_index\<close> that sorts the generated sketch elements by
  representation, splits the rest into separate arrays and groups the representations.
\<close>

definition sort_split_and_group :: "GeneratedSketchElements \<Rightarrow> IndexGPU \<Rightarrow> IndexGPU" where
  "sort_split_and_group sketch_elements idx =
     (let sorted = stable_sort_by_key (generated_representations_d sketch_elements)
                     (generated_rest_d sketch_elements);
          total_elements = length (fst sorted);
          separate = copy_rest_to_separate_arrays (snd sorted)
                       (device_buffer total_elements 0, device_buffer total_elements 0,
                        device_buffer total_elements FORWARD)
                       total_elements;
          grouped = find_first_occurrences_of_representations (fst sorted)
      in idx\<lparr>representations_d_m := fst sorted,
              read_ids_d_m := fst separate,
              positions_in_reads_d_m := fst (snd separate),
              directions_of_reads_d_m := snd (snd separate),
              unique_representations_d_m := fst grouped,
              first_occurrence_of_representations_d_m := snd grouped\<rparr>)"

text \<open>The last statement of \<open>generate_index\<close>: the filter runs only below 1.0.\<close>

definition filter_if_requested :: "rat \<Rightarrow> IndexGPU \<Rightarrow> IndexGPU" where
  "filter_if_requested filtering_parameter idx =
     (if filtering_parameter < 1
      then
        let filtered = filter_out_most_common_representations filtering_parameter
                         (representations_d_m idx) (read_ids_d_m idx)
                         (positions_in_reads_d_m idx) (directions_of_reads_d_m idx)
                         (unique_representations_d_m idx)
                         (first_occurrence_of_representations_d_m idx)
        in idx\<lparr>representations_d_m := fst filtered,
                read_ids_d_m := fst (snd filtered),
                positions_in_reads_d_m := fst (snd (snd filtered)),
                directions_of_reads_d_m := fst (snd (snd (snd filtered))),
                unique_representations_d_m := fst (snd (snd (snd (snd filtered)))),
                first_occurrence_of_representations_d_m :=
                  snd (snd (snd (snd (snd filtered))))\<rparr>
      else idx)"

definition generate_index ::
  "SketchElementImpl \<Rightarrow> FastaParser \<Rightarrow> read_id_t \<Rightarrow> read_id_t \<Rightarrow> bool \<Rightarrow> rat \<Rightarrow> IndexGPU
     \<Rightarrow> IndexGPU" where
  "generate_index generate_sketch_elements parser first_read_id past_the_last_read_id
       hash_representations filtering_parameter idx =
     (if first_read_id \<ge> past_the_last_read_id then idx\<lparr>number_of_reads_m := 0\<rparr>
      else
        let idx1 = idx\<lparr>number_of_reads_m := past_the_last_read_id - first_read_id,
                       number_of_basepairs_in_longest_read_m := 0\<rparr>;
            c = count_basepairs parser (kmer_size_m idx1) (window_size_m idx1)
                  first_read_id past_the_last_read_id;
            idx2 = idx1\<lparr>number_of_basepairs_in_longest_read_m := longest_read c\<rparr>
        in if 0 = total_basepairs c
           then idx2\<lparr>number_of_reads_m := 0, number_of_basepairs_in_longest_read_m := 0\<rparr>
           else
             let sketch_elements =
                   generated_sketch_elements generate_sketch_elements parser
                     (kmer_size_m idx2) (window_size_m idx2) first_read_id
                     past_the_last_read_id hash_representations
             in filter_if_requested filtering_parameter
                  (sort_split_and_group sketch_elements idx2))"

section \<open>The class IndexGPU\<close>

text \<open>The constructor which generates a new index.\<close>

definition IndexGPU_generate ::
  "SketchElementImpl \<Rightarrow> FastaParser \<Rightarrow> IndexDescriptor \<Rightarrow> 64 word \<Rightarrow> 64 word \<Rightarrow> bool \<Rightarrow> rat
     \<Rightarrow> IndexGPU" where
  "IndexGPU_generate generate_sketch_elements parser descriptor kmer_size window_size
       hash_representations filtering_parameter =
     generate_index generate_sketch_elements parser (first_read descriptor)
       (first_read descriptor + number_of_reads_in_descriptor descriptor)
       hash_representations filtering_parameter
       \<lparr>representations_d_m = [], read_ids_d_m = [], positions_in_reads_d_m = [],
        directions_of_reads_d_m = [], unique_representations_d_m = [],
        first_occurrence_of_representations_d_m = [],
        first_read_id_m = first_read descriptor, kmer_size_m = kmer_size,
        window_size_m = window_size, number_of_reads_m = 0,
        number_of_basepairs_in_longest_read_m = 0, way_of_construciton_m = generation,
        is_ready_m = False, index_host_copy_source_m = None\<rparr>"

text \<open>The constructor which copies the index from a host copy.\<close>

definition IndexGPU_copy :: "IndexHostCopy \<Rightarrow> IndexGPU" where
  "IndexGPU_copy index_host_copy =
     \<lparr>representations_d_m = hc_representations index_host_copy,
      read_ids_d_m = hc_read_ids index_host_copy,
      positions_in_reads_d_m = hc_positions_in_reads index_host_copy,
      directions_of_reads_d_m = hc_directions_of_reads index_host_copy,
      unique_representations_d_m = hc_unique_representations index_host_copy,
      first_occurrence_of_representations_d_m =
        hc_first_occurrence_of_representations index_host_copy,
      first_read_id_m = hc_first_read_id index_host_copy,
      kmer_size_m = hc_kmer_size index_host_copy,
      window_size_m = hc_window_size index_host_copy,
      number_of_reads_m = hc_number_of_reads index_host_copy,
      number_of_basepairs_in_longest_read_m =
        hc_number_of_basepairs_in_longest_read index_host_copy,
      way_of_construciton_m = copy, is_ready_m = False,
      index_host_copy_source_m = Some index_host_copy\<rparr>"

definition is_ready :: "IndexGPU \<Rightarrow> bool" where
  "is_ready idx = is_ready_m idx"

text \<open>
  \<open>wait_to_be_ready\<close> synchronizes with the generation stream or lets the host copy
  finish copying; neither changes a member of the index. Then it sets \<open>is_ready_\<close>.
\<close>

definition wait_to_be_ready :: "IndexGPU \<Rightarrow> IndexGPU" where
  "wait_to_be_ready idx =
     (if \<not> is_ready idx
      then (case way_of_construciton_m idx of
              generation \<Rightarrow> idx\<lparr>is_ready_m := True\<rparr>
            | copy \<Rightarrow> idx\<lparr>is_ready_m := True\<rparr>)
      else idx)"

definition representations :: "IndexGPU \<Rightarrow> IndexNotReadyException + representation_t list" where
  "representations idx =
     (if \<not> is_ready idx then Inl (IndexNotReadyException ''representations'')
      else Inr (representations_d_m idx))"

definition read_ids :: "IndexGPU \<Rightarrow> IndexNotReadyException + read_id_t list" where
  "read_ids idx =
     (if \<not> is_ready idx then Inl (IndexNotReadyException ''read_ids'')
      else Inr (read_ids_d_m idx))"

definition positions_in_reads ::
  "IndexGPU \<Rightarrow> IndexNotReadyException + position_in_read_t list" where
  "positions_in_reads idx =
     (if \<not> is_ready idx then Inl (IndexNotReadyException ''positions_in_reads'')
      else Inr (positions_in_reads_d_m idx))"

definition directions_of_reads ::
  "IndexGPU \<Rightarrow> IndexNotReadyException + DirectionOfRepresentation list" where
  "directions_of_reads idx =
     (if \<not> is_ready idx then Inl (IndexNotReadyException ''directions_of_reads'')
      else Inr (directions_of_reads_d_m idx))"

definition unique_representations ::
  "IndexGPU \<Rightarrow> IndexNotReadyException + representation_t list" where
  "unique_representations idx =
     (if \<not> is_ready idx then Inl (IndexNotReadyException ''unique_representations'')
      else Inr (unique_representations_d_m idx))"

definition first_occurrence_of_representations ::
  "IndexGPU \<Rightarrow> IndexNotReadyException + nat list" where
  "first_occurrence_of_representations idx =
     (if \<not> is_ready idx
      then Inl (IndexNotReadyException ''first_occurrence_of_representations'')
      else Inr (first_occurrence_of_representations_d_m idx))"

definition number_of_reads :: "IndexGPU \<Rightarrow> IndexNotReadyException + read_id_t" where
  "number_of_reads idx =
     (if \<not> is_ready idx then Inl (IndexNotReadyException ''number_of_reads'')
      else Inr (number_of_reads_m idx))"

definition smallest_read_id :: "IndexGPU \<Rightarrow> IndexNotReadyException + read_id_t" where
  "smallest_read_id idx =
     (if \<not> is_ready idx then Inl (IndexNotReadyException ''smallest_read_id'')
      else Inr (if number_of_reads_m idx > 0 then first_read_id_m idx else 0))"

definition largest_read_id :: "IndexGPU \<Rightarrow> IndexNotReadyException + read_id_t" where
  "largest_read_id idx =
     (if \<not> is_ready idx then Inl (IndexNotReadyException ''largest_read_id'')
      else Inr (if number_of_reads_m idx > 0
                then first_read_id_m idx + number_of_reads_m idx - 1 else 0))"

definition number_of_basepairs_in_longest_read ::
  "IndexGPU \<Rightarrow> IndexNotReadyException + position_in_read_t" where
  "number_of_basepairs_in_longest_read idx =
     (if \<not> is_ready idx
      then Inl (IndexNotReadyException ''number_of_basepairs_in_longest_read'')
      else Inr (number_of_basepairs_in_longest_read_m idx))"

text \<open>
  The public member functions of an index. All of them but \<open>wait_to_be_ready\<close> are
  \<open>const\<close>: \<open>call\<close> gives the state of the index after a call.
\<close>

datatype IndexOperation =
    Call_representations | Call_read_ids | Call_positions_in_reads
  | Call_directions_of_reads | Call_unique_representations
  | Call_first_occurrence_of_representations | Call_number_of_reads
  | Call_smallest_read_id | Call_largest_read_id
  | Call_number_of_basepairs_in_longest_read | Call_is_ready | Call_wait_to_be_ready

fun call :: "IndexOperation \<Rightarrow> IndexGPU \<Rightarrow> IndexGPU" where
  "call Call_wait_to_be_ready idx = wait_to_be_ready idx"
| "call _ idx = idx"

definition calls :: "IndexOperation list \<Rightarrow> IndexGPU \<Rightarrow> IndexGPU" where
  "calls ops idx = fold call ops idx"

section \<open>Notions used in the statements and proofs\<close>

text \<open>
  \<open>index_wf\<close> is the consistency of the unique-representation table with the array of
  representations: the first occurrences have one element more than the unique
  representations, start with 0, end with the number of sketch elements and increase
  strictly; the unique representations are distinct; and the sketch elements from one
  first occurrence up to the next one all have the corresponding unique representation.

  \<open>boundaries\<close> are the group boundaries of an array of representations.
  \<open>scatter\<close> and \<open>copy_segments\<close> are the two patterns by which the kernels write their
  output: one element per kept position, at the slot given by the number of kept
  positions before it, and one segment per group, at the offset given by the lengths
  of the segments before it.

  For a filtering threshold \<open>T\<close> and first occurrences \<open>fo\<close>, \<open>kept_count T fo b\<close> is the
  number of sketch elements of group \<open>b\<close> that remain (all of them or none),
  \<open>survives T fo b\<close> says that the group remains, \<open>survivors T fo k\<close> are the remaining
  groups below \<open>k\<close>, \<open>offset_after_filtering T fo b\<close> is the number of remaining sketch
  elements in groups below \<open>b\<close>, and \<open>filtered_array T fo m arr\<close> are the elements of a
  data array \<open>arr\<close> that remain, in their order.
\<close>

definition scatter :: "(nat \<Rightarrow> bool) \<Rightarrow> (nat \<Rightarrow> 'a) \<Rightarrow> nat \<Rightarrow> 'a list \<Rightarrow> 'a list" where
  "scatter keep f k out =
     fold (\<lambda>i out. if keep i then out[length (filter keep [0..<i]) := f i] else out) [0..<k] out"

definition boundaries :: "representation_t list \<Rightarrow> nat list" where
  "boundaries reps = filter (is_group_boundary reps) [0..<length reps]"

definition index_wf :: "representation_t list \<Rightarrow> representation_t list \<Rightarrow> nat list \<Rightarrow> bool" where
  "index_wf reps uniq fo \<longleftrightarrow>
     length fo = length uniq + 1 \<and> fo ! 0 = 0 \<and> last fo = length reps
     \<and> sorted_wrt (<) fo \<and> distinct uniq
     \<and> (\<forall>b \<in> {0..<length uniq}. \<forall>j \<in> {fo ! b..<fo ! Suc b}. reps ! j = uniq ! b)"

definition kept_count :: "nat \<Rightarrow> nat list \<Rightarrow> nat \<Rightarrow> nat" where
  "kept_count T fo b =
     (if fo ! Suc b - fo ! b \<ge> T then 0 else fo ! Suc b - fo ! b)"

definition survives :: "nat \<Rightarrow> nat list \<Rightarrow> nat \<Rightarrow> bool" where
  "survives T fo b \<longleftrightarrow> kept_count T fo b \<noteq> 0"

definition survivors :: "nat \<Rightarrow> nat list \<Rightarrow> nat \<Rightarrow> nat list" where
  "survivors T fo k = filter (survives T fo) [0..<k]"

definition offset_after_filtering :: "nat \<Rightarrow> nat list \<Rightarrow> nat \<Rightarrow> nat" where
  "offset_after_filtering T fo b = sum_list (map (kept_count T fo) [0..<b])"

definition filtered_array :: "nat \<Rightarrow> nat list \<Rightarrow> nat \<Rightarrow> 'a list \<Rightarrow> 'a list" where
  "filtered_array T fo m arr =
     concat (map (\<lambda>b. map (\<lambda>i. arr ! (fo ! b + i)) [0..<kept_count T fo b]) [0..<m])"

definition copy_segments :: "(nat \<Rightarrow> nat) \<Rightarrow> (nat \<Rightarrow> nat \<Rightarrow> 'a) \<Rightarrow> nat \<Rightarrow> 'a list \<Rightarrow> 'a list" where
  "copy_segments len src k out =
     fold (\<lambda>b out. fold (\<lambda>i out. out[sum_list (map len [0..<b]) + i := src b i])
                      [0..<len b] out)
          [0..<k] out"

text \<open>\<open>index_arrays\<close> are the six arrays of an index.\<close>

definition index_arrays ::
  "IndexGPU \<Rightarrow> representation_t list \<times> read_id_t list \<times> position_in_read_t list
     \<times> DirectionOfRepresentation list \<times> representation_t list \<times> nat list" where
  "index_arrays idx =
     (representations_d_m idx, read_ids_d_m idx, positions_in_reads_d_m idx,
      directions_of_reads_d_m idx, unique_representations_d_m idx,
      first_occurrence_of_representations_d_m idx)"

text \<open>
  \<open>unfiltered_arrays\<close> follows the specification (section 4.1, steps 5 to 7): the
  generated sketch elements are sorted by representation with a stable sort, the packed
  rest is unpacked into read ids, positions and directions, and the representations are
  grouped; no filter runs.
\<close>

definition unfiltered_arrays ::
  "GeneratedSketchElements \<Rightarrow> representation_t list \<times> read_id_t list \<times> position_in_read_t list
     \<times> DirectionOfRepresentation list \<times> representation_t list \<times> nat list" where
  "unfiltered_arrays sketch_elements =
     (let sorted = sort_key fst (zip (generated_representations_d sketch_elements)
                                    (generated_rest_d sketch_elements));
          representations = map fst sorted
      in (representations,
          map (\<lambda>e. read_id_m (snd e)) sorted,
          map (\<lambda>e. position_in_read_m (snd e)) sorted,
          map (\<lambda>e. direction_m (snd e)) sorted,
          fst (find_first_occurrences_of_representations representations),
          snd (find_first_occurrences_of_representations representations)))"

text \<open>
  \<open>generation_reached\<close>: the construction gets as far as generating sketch elements,
  that is, the read range is not empty and the reads that qualify hold at least one
  basepair.
\<close>

definition generation_reached ::
  "FastaParser \<Rightarrow> 64 word \<Rightarrow> 64 word \<Rightarrow> read_id_t \<Rightarrow> read_id_t \<Rightarrow> bool" where
  "generation_reached parser kmer_size window_size first_read_id past_the_last_read_id \<longleftrightarrow>
     first_read_id < past_the_last_read_id
     \<and> 0 < total_basepairs (count_basepairs parser kmer_size window_size first_read_id
                               past_the_last_read_id)"

text \<open>Parsers and sketch element generators of the examples.\<close>

definition empty_read_parser :: FastaParser where
  "empty_read_parser read_id = \<lparr>name = ''read'', seq = ''''\<rparr>"

definition short_read_parser :: FastaParser where
  "short_read_parser read_id = \<lparr>name = ''read'', seq = ''ACG''\<rparr>"

definition two_reads_parser :: FastaParser where
  "two_reads_parser read_id =
     (if read_id = 0 then \<lparr>name = ''read_0'', seq = ''AC''\<rparr>
      else \<lparr>name = ''read_1'', seq = ''ACGTACGT''\<rparr>)"

definition no_sketch_elements :: SketchElementImpl where
  "no_sketch_elements number_of_reads_to_add kmer_size window_size first_read_id
       merged_basepairs read_id_to_basepairs_section hash_representations =
     \<lparr>generated_representations_d = [], generated_rest_d = []\<rparr>"

definition three_sketch_elements :: SketchElementImpl where
  "three_sketch_elements number_of_reads_to_add kmer_size window_size first_read_id
       merged_basepairs read_id_to_basepairs_section hash_representations =
     \<lparr>generated_representations_d = [7, 3, 7],
      generated_rest_d =
        [\<lparr>read_id_m = first_read_id, position_in_read_m = 0, direction_m = FORWARD\<rparr>,
         \<lparr>read_id_m = first_read_id, position_in_read_m = 1, direction_m = REVERSE\<rparr>,
         \<lparr>read_id_m = first_read_id + 1, position_in_read_m = 0, direction_m = FORWARD\<rparr>]\<rparr>"

text \<open>
  \<open>read_order\<close> is the order in which the sketch elements are generated: by read id, and
  by position within a read. \<open>ordered_within_representations\<close> says of the data arrays
  that sketch elements with the same representation are in this order.
\<close>

definition read_order :: "ReadidPositionDirection \<Rightarrow> ReadidPositionDirection \<Rightarrow> bool" where
  "read_order a b \<longleftrightarrow>
     read_id_m a < read_id_m b
     \<or> (read_id_m a = read_id_m b \<and> position_in_read_m a \<le> position_in_read_m b)"

definition ordered_within_representations ::
  "representation_t list \<Rightarrow> read_id_t list \<Rightarrow> position_in_read_t list \<Rightarrow> bool" where
  "ordered_within_representations reps rids pos \<longleftrightarrow>
     (\<forall>j \<in> {0..<length reps}. \<forall>i \<in> {0..<j}.
        reps ! i = reps ! j \<longrightarrow>
          rids ! i < rids ! j \<or> (rids ! i = rids ! j \<and> pos ! i \<le> pos ! j))"

text \<open>
  \<open>data_arrays\<close> are the four data arrays of an index. \<open>kept_sketch_elements T reps\<close> are
  the positions of the array of representations \<open>reps\<close> whose representation occurs fewer
  than \<open>T\<close> times, in increasing order, and \<open>sketch_elements_at K arrays\<close> are the sketch
  elements that the data arrays among \<open>arrays\<close> hold at the positions \<open>K\<close>, in the order of
  \<open>K\<close>.
\<close>

definition data_arrays ::
  "IndexGPU \<Rightarrow> representation_t list \<times> read_id_t list \<times> position_in_read_t list
     \<times> DirectionOfRepresentation list" where
  "data_arrays idx =
     (representations_d_m idx, read_ids_d_m idx, positions_in_reads_d_m idx,
      directions_of_reads_d_m idx)"

definition kept_sketch_elements :: "nat \<Rightarrow> representation_t list \<Rightarrow> nat list" where
  "kept_sketch_elements T reps =
     filter (\<lambda>j. count_list reps (reps ! j) < T) [0..<length reps]"

definition sketch_elements_at ::
  "nat list
     \<Rightarrow> representation_t list \<times> read_id_t list \<times> position_in_read_t list
         \<times> DirectionOfRepresentation list \<times> representation_t list \<times> nat list
     \<Rightarrow> representation_t list \<times> read_id_t list \<times> position_in_read_t list
         \<times> DirectionOfRepresentation list" where
  "sketch_elements_at K arrays =
     (map (\<lambda>j. fst arrays ! j) K,
      map (\<lambda>j. fst (snd arrays) ! j) K,
      map (\<lambda>j. fst (snd (snd arrays)) ! j) K,
      map (\<lambda>j. fst (snd (snd (snd arrays))) ! j) K)"

text \<open>
  A sketch element generator of the examples: five sketch elements of two reads, in
  the order of the reads and of the positions, with the representation 3 three times
  and the representation 7 twice.
\<close>

definition five_sketch_elements :: SketchElementImpl where
  "five_sketch_elements number_of_reads_to_add kmer_size window_size first_read_id
       merged_basepairs read_id_to_basepairs_section hash_representations =
     \<lparr>generated_representations_d = [3, 7, 3, 7, 3],
      generated_rest_d =
        [\<lparr>read_id_m = first_read_id, position_in_read_m = 0, direction_m = FORWARD\<rparr>,
         \<lparr>read_id_m = first_read_id, position_in_read_m = 1, direction_m = REVERSE\<rparr>,
         \<lparr>read_id_m = first_read_id, position_in_read_m = 2, direction_m = FORWARD\<rparr>,
         \<lparr>read_id_m = first_read_id + 1, position_in_read_m = 0, direction_m = FORWARD\<rparr>,
         \<lparr>read_id_m = first_read_id + 1, position_in_read_m = 1, direction_m = REVERSE\<rparr>]\<rparr>"

section \<open>Readiness of the index\<close>

lemma is_ready_m_generate_index:
  "is_ready_m (generate_index g parser a b h p idx) = is_ready_m idx"
  by (simp add: generate_index_def filter_if_requested_def sort_split_and_group_def Let_def)

lemma is_ready_call:
  "is_ready (call opn idx) = (is_ready idx \<or> opn = Call_wait_to_be_ready)"
  by (cases opn) (auto simp: wait_to_be_ready_def is_ready_def split: WayOfConstruciton.splits)

lemma is_ready_calls:
  "is_ready (calls ops idx) = (is_ready idx \<or> Call_wait_to_be_ready \<in> set ops)"
  unfolding calls_def
proof (induction ops arbitrary: idx)
  case Nil
  show ?case by simp
next
  case (Cons opn ops)
  show ?case using Cons.IH [of "call opn idx"] by (auto simp: is_ready_call)
qed

lemma not_ready_after_construction:
  "\<not> is_ready (IndexGPU_generate g parser descriptor kmer_size window_size h p)"
  "\<not> is_ready (IndexGPU_copy index_host_copy)"
  by (simp_all add: is_ready_def is_ready_m_generate_index IndexGPU_generate_def
      IndexGPU_copy_def)

lemma is_ready_wait_to_be_ready: "is_ready (wait_to_be_ready idx)"
  by (simp add: wait_to_be_ready_def is_ready_def split: WayOfConstruciton.splits)

lemma wait_to_be_ready_ready: "is_ready idx \<Longrightarrow> wait_to_be_ready idx = idx"
  by (simp add: wait_to_be_ready_def)

text \<open>
  Claim C7. Each of the six array accessors and of the four scalar accessors fails with
  \<open>IndexNotReadyException\<close> (the left summand) exactly when \<open>is_ready()\<close> is false; on a
  ready index each of them returns a value.
\<close>

theorem accessors_fail_iff_not_ready:
  "isl (representations idx) = (\<not> is_ready idx)
   \<and> isl (read_ids idx) = (\<not> is_ready idx)
   \<and> isl (positions_in_reads idx) = (\<not> is_ready idx)
   \<and> isl (directions_of_reads idx) = (\<not> is_ready idx)
   \<and> isl (unique_representations idx) = (\<not> is_ready idx)
   \<and> isl (first_occurrence_of_representations idx) = (\<not> is_ready idx)
   \<and> isl (number_of_reads idx) = (\<not> is_ready idx)
   \<and> isl (smallest_read_id idx) = (\<not> is_ready idx)
   \<and> isl (largest_read_id idx) = (\<not> is_ready idx)
   \<and> isl (number_of_basepairs_in_longest_read idx) = (\<not> is_ready idx)"
  by (simp add: representations_def read_ids_def positions_in_reads_def directions_of_reads_def
      unique_representations_def first_occurrence_of_representations_def number_of_reads_def
      smallest_read_id_def largest_read_id_def number_of_basepairs_in_longest_read_def)

text \<open>
  Claim C8. An index is not ready after either constructor. After any sequence of calls
  of its member functions it is ready exactly if it was ready before or the sequence
  holds a call of \<open>wait_to_be_ready\<close>: no other member function changes the readiness, and
  a ready index stays ready. \<open>wait_to_be_ready\<close> makes the index ready, and a repeated call
  changes nothing.
\<close>

theorem readiness_one_way:
  "\<not> is_ready (IndexGPU_generate g parser descriptor kmer_size window_size h p)
   \<and> \<not> is_ready (IndexGPU_copy index_host_copy)
   \<and> is_ready (calls ops idx) = (is_ready idx \<or> Call_wait_to_be_ready \<in> set ops)
   \<and> is_ready (wait_to_be_ready idx)
   \<and> wait_to_be_ready (wait_to_be_ready idx) = wait_to_be_ready idx"
  using not_ready_after_construction is_ready_calls [of ops idx]
    is_ready_wait_to_be_ready [of idx]
    wait_to_be_ready_ready [OF is_ready_wait_to_be_ready [of idx]]
  by blast

section \<open>Scans and scatters\<close>

lemma length_exclusive_scan_from [simp]: "length (exclusive_scan_from a xs) = length xs"
  by (induction xs arbitrary: a) auto

lemma length_inclusive_scan_from [simp]: "length (inclusive_scan_from a xs) = length xs"
  by (induction xs arbitrary: a) auto

lemma exclusive_scan_from_nth:
  "i < length xs \<Longrightarrow> exclusive_scan_from a xs ! i = a + sum_list (take i xs)"
proof (induction xs arbitrary: a i)
  case Nil
  then show ?case by simp
next
  case (Cons x xs)
  then show ?case by (cases i) auto
qed

lemma inclusive_scan_from_nth:
  "i < length xs \<Longrightarrow> inclusive_scan_from a xs ! i = a + sum_list (take (Suc i) xs)"
proof (induction xs arbitrary: a i)
  case Nil
  then show ?case by simp
next
  case (Cons x xs)
  then show ?case by (cases i) auto
qed

lemma length_exclusive_scan [simp]: "length (exclusive_scan xs) = length xs"
  by (simp add: exclusive_scan_def)

lemma exclusive_scan_nth: "i < length xs \<Longrightarrow> exclusive_scan xs ! i = sum_list (take i xs)"
  by (simp add: exclusive_scan_def exclusive_scan_from_nth)

lemma length_inclusive_scan [simp]: "length (inclusive_scan xs) = length xs"
  by (simp add: inclusive_scan_def)

lemma inclusive_scan_nth:
  "i < length xs \<Longrightarrow> inclusive_scan xs ! i = sum_list (take (Suc i) xs)"
  by (simp add: inclusive_scan_def inclusive_scan_from_nth)

lemma sum_list_flags: "sum_list (map (\<lambda>i. if P i then 1 else 0) xs) = length (filter P xs)"
  by (induction xs) auto

lemma scatter_Suc:
  "scatter keep f (Suc k) out =
     (let r = scatter keep f k out
      in if keep k then r[length (filter keep [0..<k]) := f k] else r)"
  by (simp add: scatter_def)

lemma length_scatter [simp]: "length (scatter keep f k out) = length out"
  by (induction k) (auto simp: scatter_Suc Let_def, simp add: scatter_def)

lemma scatter_result:
  "length (filter keep [0..<k]) \<le> length out \<Longrightarrow>
   scatter keep f k out
     = map f (filter keep [0..<k]) @ drop (length (filter keep [0..<k])) out"
proof (induction k)
  case 0
  show ?case by (simp add: scatter_def)
next
  case (Suc k)
  let ?F = "filter keep [0..<k]"
  show ?case
  proof (cases "keep k")
    case False
    with Suc show ?thesis by (simp add: scatter_Suc)
  next
    case True
    with Suc.prems have lt: "length ?F < length out" by simp
    then have IH: "scatter keep f k out = map f ?F @ drop (length ?F) out"
      using Suc.IH by simp
    have "drop (length ?F) out = out ! length ?F # drop (Suc (length ?F)) out"
      using lt by (simp add: Cons_nth_drop_Suc)
    then have "(map f ?F @ drop (length ?F) out)[length ?F := f k]
        = map f ?F @ f k # drop (Suc (length ?F)) out"
      by (simp add: list_update_append)
    with True IH show ?thesis by (simp add: scatter_Suc)
  qed
qed

lemma fold_pair_scatter:
  assumes "\<And>i. i < k \<Longrightarrow> keep i \<Longrightarrow> slot i = length (filter keep [0..<i])"
  shows "fold (\<lambda>i (a, b). if keep i then (a[slot i := f i], b[slot i := g i]) else (a, b))
           [0..<k] (a0, b0)
         = (scatter keep f k a0, scatter keep g k b0)"
  using assms
proof (induction k)
  case 0
  show ?case by (simp add: scatter_def)
next
  case (Suc k)
  then show ?case by (simp add: scatter_Suc)
qed

section \<open>The grouping step\<close>

lemma mask_nth:
  assumes "i < length reps"
  shows "representation_index_mask reps ! i
           = length (filter (is_group_boundary reps) [0..<Suc i])"
proof -
  have "take (Suc i) (map (\<lambda>i. if is_group_boundary reps i then 1 else (0::nat)) [0..<length reps])
          = map (\<lambda>i. if is_group_boundary reps i then 1 else 0) [0..<Suc i]"
    using assms by (simp add: take_map del: upt_Suc)
  then show ?thesis
    using assms
    by (simp add: representation_index_mask_def inclusive_scan_nth sum_list_flags del: upt_Suc)
qed

lemma length_mask [simp]: "length (representation_index_mask reps) = length reps"
  by (simp add: representation_index_mask_def)

lemma last_mask:
  assumes "reps \<noteq> []"
  shows "last (representation_index_mask reps) = length (boundaries reps)"
proof -
  have "representation_index_mask reps \<noteq> []"
    using assms by (metis length_mask length_0_conv)
  then have "last (representation_index_mask reps)
          = representation_index_mask reps ! (length reps - 1)"
    by (simp add: last_conv_nth)
  also have "\<dots> = length (filter (is_group_boundary reps) [0..<Suc (length reps - 1)])"
    using assms by (intro mask_nth) simp
  finally show ?thesis using assms by (simp add: boundaries_def)
qed

lemma find_first_occurrences_kernel_eq:
  "find_first_occurrences_of_representations_kernel (representation_index_mask reps) reps
       (length reps) (a0, b0)
   = (scatter (is_group_boundary reps) (\<lambda>i. i) (length reps) a0,
      scatter (is_group_boundary reps) (\<lambda>i. reps ! i) (length reps) b0)"
  unfolding find_first_occurrences_of_representations_kernel_def
proof (rule fold_pair_scatter)
  fix i assume "i < length reps" "is_group_boundary reps i"
  then show "representation_index_mask reps ! i - 1
               = length (filter (is_group_boundary reps) [0..<i])"
    by (simp add: mask_nth)
qed

lemma find_first_occurrences_eq:
  "find_first_occurrences_of_representations reps
     = (map (\<lambda>i. reps ! i) (boundaries reps), boundaries reps @ [length reps])"
proof (cases "reps = []")
  case True
  then show ?thesis
    by (simp add: find_first_occurrences_of_representations_def boundaries_def
        find_first_occurrences_of_representations_kernel_def device_buffer_def
        representation_index_mask_def inclusive_scan_def)
next
  case False
  then have m: "last (representation_index_mask reps) = length (boundaries reps)"
    by (rule last_mask)
  have len: "length (filter (is_group_boundary reps) [0..<length reps])
               = length (boundaries reps)"
    by (simp add: boundaries_def)
  show ?thesis
    using False
    by (simp add: find_first_occurrences_of_representations_def Let_def m
        find_first_occurrences_kernel_eq scatter_result device_buffer_def len)
      (simp add: boundaries_def)
qed

lemma sorted_wrt_boundaries: "sorted_wrt (<) (boundaries reps)"
  unfolding boundaries_def by (rule sorted_wrt_filter) simp

lemma set_boundaries:
  "set (boundaries reps) = {i. i < length reps \<and> is_group_boundary reps i}"
  by (auto simp: boundaries_def)

lemma sorted_wrt_first_occurrence: "sorted_wrt (<) (boundaries reps @ [length reps])"
  by (simp add: sorted_wrt_append sorted_wrt_boundaries set_boundaries)

lemma boundaries_0:
  assumes "reps \<noteq> []"
  shows "boundaries reps \<noteq> []" "boundaries reps ! 0 = 0"
proof -
  have "[0..<length reps] = 0 # [1..<length reps]"
    using assms by (simp add: upt_rec)
  then have "boundaries reps = 0 # filter (is_group_boundary reps) [1..<length reps]"
    by (simp add: boundaries_def is_group_boundary_def)
  then show "boundaries reps \<noteq> []" "boundaries reps ! 0 = 0" by simp_all
qed

lemma first_occurrence_0: "(boundaries reps @ [length reps]) ! 0 = 0"
proof (cases "reps = []")
  case True
  then show ?thesis by (simp add: boundaries_def)
next
  case False
  then show ?thesis using boundaries_0 [OF False] by (simp add: nth_append)
qed

lemma strict_sorted_nth_less:
  assumes "sorted_wrt (<) (xs :: nat list)" "b < length xs" "c < length xs" "xs ! b < xs ! c"
  shows "b < c"
proof (rule ccontr)
  assume "\<not> b < c"
  then consider "c = b" | "c < b" by linarith
  then show False
  proof cases
    case 1
    with assms show False by simp
  next
    case 2
    with assms have "xs ! c < xs ! b" by (simp add: sorted_wrt_iff_nth_less)
    with assms show False by simp
  qed
qed

lemma no_boundary_between:
  assumes b: "b < length (boundaries reps)"
    and lo: "boundaries reps ! b < j"
    and hi: "j < (boundaries reps @ [length reps]) ! Suc b"
  shows "\<not> is_group_boundary reps j"
proof
  let ?F = "boundaries reps"
  assume B: "is_group_boundary reps j"
  have fo: "sorted_wrt (<) (?F @ [length reps])" by (rule sorted_wrt_first_occurrence)
  have "(?F @ [length reps]) ! Suc b \<le> length reps"
  proof (cases "Suc b < length ?F")
    case True
    then have "?F ! Suc b \<in> set ?F" by simp
    then show ?thesis using True by (simp add: nth_append set_boundaries)
  next
    case False
    with b show ?thesis by (simp add: nth_append)
  qed
  with hi have "j < length reps" by simp
  with B have "j \<in> set ?F" by (simp add: set_boundaries)
  then obtain c where c: "c < length ?F" "?F ! c = j" by (auto simp: in_set_conv_nth)
  have "b < c"
    using strict_sorted_nth_less [OF sorted_wrt_boundaries b c(1)] lo c(2) by simp
  then have "Suc b < length ?F" "Suc b \<le> c" using c(1) by simp_all
  have "?F ! Suc b \<le> ?F ! c"
  proof (cases "Suc b = c")
    case True
    then show ?thesis by simp
  next
    case False
    with \<open>Suc b \<le> c\<close> have "Suc b < c" by simp
    then have "?F ! Suc b < ?F ! c"
      using sorted_wrt_boundaries [of reps] c(1) by (simp add: sorted_wrt_iff_nth_less)
    then show ?thesis by simp
  qed
  with hi c(2) \<open>Suc b < length ?F\<close> show False by (simp add: nth_append)
qed

lemma group_constant:
  assumes b: "b < length (boundaries reps)"
  shows "boundaries reps ! b \<le> j \<Longrightarrow> j < (boundaries reps @ [length reps]) ! Suc b
           \<Longrightarrow> reps ! j = reps ! (boundaries reps ! b)"
proof (induction j)
  case 0
  then show ?case by simp
next
  case (Suc j)
  show ?case
  proof (cases "boundaries reps ! b = Suc j")
    case True
    then show ?thesis by simp
  next
    case False
    with Suc.prems have lo: "boundaries reps ! b < Suc j" "boundaries reps ! b \<le> j" by simp_all
    have "\<not> is_group_boundary reps (Suc j)"
      using no_boundary_between [OF b lo(1) Suc.prems(2)] .
    then have "reps ! Suc j = reps ! j" by (simp add: is_group_boundary_def)
    moreover have "reps ! j = reps ! (boundaries reps ! b)"
      using Suc.IH lo(2) Suc.prems(2) by simp
    ultimately show ?thesis by simp
  qed
qed

lemma boundary_before:
  "j < length reps \<Longrightarrow> \<exists>i \<in> set (boundaries reps). reps ! i = reps ! j"
proof (induction j)
  case 0
  then show ?case by (auto simp: set_boundaries is_group_boundary_def)
next
  case (Suc j)
  show ?case
  proof (cases "is_group_boundary reps (Suc j)")
    case True
    with Suc.prems show ?thesis by (auto simp: set_boundaries)
  next
    case False
    then have "reps ! Suc j = reps ! j" by (simp add: is_group_boundary_def)
    with Suc show ?thesis by auto
  qed
qed

lemma set_unique_representations:
  "set (map (\<lambda>i. reps ! i) (boundaries reps)) = set reps"
proof
  show "set (map (\<lambda>i. reps ! i) (boundaries reps)) \<subseteq> set reps"
    by (auto simp: set_boundaries)
  show "set reps \<subseteq> set (map (\<lambda>i. reps ! i) (boundaries reps))"
  proof
    fix r assume "r \<in> set reps"
    then obtain j where j: "j < length reps" "reps ! j = r" by (auto simp: in_set_conv_nth)
    from boundary_before [OF j(1)] obtain i where "i \<in> set (boundaries reps)" "reps ! i = reps ! j"
      by blast
    with j(2) have "r = reps ! i" by simp
    then have "r \<in> (\<lambda>i. reps ! i) ` set (boundaries reps)"
      using \<open>i \<in> set (boundaries reps)\<close> by (rule image_eqI)
    then show "r \<in> set (map (\<lambda>i. reps ! i) (boundaries reps))" by simp
  qed
qed

lemma sorted_unique_representations:
  assumes "sorted reps"
  shows "sorted_wrt (<) (map (\<lambda>i. reps ! i) (boundaries reps))"
proof -
  have "sorted_wrt (\<lambda>i j. reps ! i < reps ! j) (boundaries reps)"
  proof (rule sorted_wrt_mono_rel [OF _ sorted_wrt_boundaries])
    fix i j
    assume i: "i \<in> set (boundaries reps)" and j: "j \<in> set (boundaries reps)" and "i < j"
    then have jn: "j < length reps" and B: "is_group_boundary reps j" and "j \<noteq> 0"
      by (simp_all add: set_boundaries)
    then have ne: "reps ! j \<noteq> reps ! (j - 1)" by (simp add: is_group_boundary_def)
    have "reps ! i \<le> reps ! (j - 1)"
      using assms \<open>i < j\<close> jn by (intro sorted_nth_mono) simp_all
    moreover have "reps ! (j - 1) \<le> reps ! j"
      using assms jn by (intro sorted_nth_mono) simp_all
    ultimately show "reps ! i < reps ! j" using ne by simp
  qed
  then show ?thesis by (simp add: sorted_wrt_map)
qed

lemma index_wf_find_first_occurrences:
  assumes "sorted reps"
  shows "index_wf reps (fst (find_first_occurrences_of_representations reps))
           (snd (find_first_occurrences_of_representations reps))"
proof -
  let ?F = "boundaries reps"
  have "distinct (map (\<lambda>i. reps ! i) ?F)"
    using sorted_unique_representations [OF assms] strict_sorted_iff by blast
  moreover have "\<forall>b \<in> {0..<length ?F}. \<forall>j \<in> {(?F @ [length reps]) ! b..<(?F @ [length reps]) ! Suc b}.
      reps ! j = map (\<lambda>i. reps ! i) ?F ! b"
  proof (intro ballI)
    fix b j
    assume b: "b \<in> {0..<length ?F}"
      and j: "j \<in> {(?F @ [length reps]) ! b..<(?F @ [length reps]) ! Suc b}"
    from b have b': "b < length ?F" by simp
    with j have "?F ! b \<le> j" "j < (?F @ [length reps]) ! Suc b" by (simp_all add: nth_append)
    then have "reps ! j = reps ! (?F ! b)" by (rule group_constant [OF b'])
    with b' show "reps ! j = map (\<lambda>i. reps ! i) ?F ! b" by simp
  qed
  moreover note first_occurrence_0 [of reps] sorted_wrt_first_occurrence [of reps]
  ultimately show ?thesis
    unfolding find_first_occurrences_eq index_wf_def fst_conv snd_conv
    by simp
qed

section \<open>The filter as a function of the first occurrences\<close>

lemma length_adjacent_difference [simp]: "length (adjacent_difference xs) = length xs"
  by (cases xs) auto

lemma adjacent_difference_nth:
  "i < length xs \<Longrightarrow>
   adjacent_difference xs ! i = (if i = 0 then xs ! 0 else xs ! i - xs ! (i - 1))"
  by (cases xs; cases i) auto

lemma counts_before_filtering:
  assumes "length fo = m + 1" "fo ! 0 = 0"
  shows "number_of_sketch_elements_with_each_representation fo
           = map (\<lambda>b. fo ! Suc b - fo ! b) [0..<m] @ [0]"
proof -
  have "adjacent_difference (tl fo) = map (\<lambda>b. fo ! Suc b - fo ! b) [0..<m]"
  proof (rule nth_equalityI)
    show "length (adjacent_difference (tl fo)) = length (map (\<lambda>b. fo ! Suc b - fo ! b) [0..<m])"
      using assms by simp
    fix i assume "i < length (adjacent_difference (tl fo))"
    then have i: "i < m" using assms by simp
    then have "i < length (tl fo)" using assms by simp
    then show "adjacent_difference (tl fo) ! i = map (\<lambda>b. fo ! Suc b - fo ! b) [0..<m] ! i"
      using i assms by (cases i) (simp_all add: adjacent_difference_nth nth_tl)
  qed
  then show ?thesis by (simp add: number_of_sketch_elements_with_each_representation_def)
qed

lemma counts_after_filtering:
  assumes "length fo = m + 1" "fo ! 0 = 0"
  shows "mark_representations_for_filtering_out T
           (number_of_sketch_elements_with_each_representation fo)
         = map (kept_count T fo) [0..<m] @ [0]"
  by (simp add: counts_before_filtering [OF assms] mark_representations_for_filtering_out_def
      kept_count_def)

lemma first_occurrence_after_filtering_nth:
  assumes "i \<le> m"
  shows "exclusive_scan (map (kept_count T fo) [0..<m] @ [0]) ! i = offset_after_filtering T fo i"
proof -
  have "take i (map (kept_count T fo) [0..<m] @ [0]) = map (kept_count T fo) [0..<i]"
    using assms by (simp add: take_map)
  then show ?thesis using assms by (simp add: exclusive_scan_nth offset_after_filtering_def)
qed

lemma new_index_nth:
  assumes "i \<le> m"
  shows "unique_representation_index_after_filtering m (map (kept_count T fo) [0..<m] @ [0]) ! i
           = length (survivors T fo i)"
proof -
  let ?cs = "map (kept_count T fo) [0..<m] @ [0]"
  let ?flag = "\<lambda>j. if j < m then (if 0 = ?cs ! j then 0 else 1) else (0::nat)"
  have "take i (map ?flag [0..<m + 1]) = map ?flag [0..<i]"
    using assms by (simp add: take_map del: upt_Suc)
  also have "\<dots> = map (\<lambda>j. if survives T fo j then 1 else 0) [0..<i]"
    using assms by (intro map_cong) (auto simp: nth_append survives_def)
  finally have "sum_list (take i (map ?flag [0..<m + 1])) = length (survivors T fo i)"
    by (simp add: sum_list_flags survivors_def)
  then show ?thesis
    using assms
    by (simp add: unique_representation_index_after_filtering_def exclusive_scan_nth del: upt_Suc)
qed

lemma length_new_index [simp]:
  "length (unique_representation_index_after_filtering m cs) = m + 1"
  by (simp add: unique_representation_index_after_filtering_def)

lemma survivors_Suc:
  "survivors T fo (Suc k)
     = (if survives T fo k then survivors T fo k @ [k] else survivors T fo k)"
  by (simp add: survivors_def)

lemma compress_unique_eq:
  fixes uniq :: "representation_t list" and T :: nat and fo :: "nat list" and m :: nat
  defines "cs \<equiv> map (kept_count T fo) [0..<m] @ [0]"
  assumes a0: "length a0 = length (survivors T fo m)"
    and b0: "length b0 = length (survivors T fo m) + 1"
  shows "compress_unique_representations_after_filtering_kernel m uniq (exclusive_scan cs)
           (unique_representation_index_after_filtering m cs) (a0, b0)
         = (map (\<lambda>b. uniq ! b) (survivors T fo m),
            map (offset_after_filtering T fo) (survivors T fo m)
              @ [offset_after_filtering T fo m])"
proof -
  let ?S = "exclusive_scan cs"
  let ?NI = "unique_representation_index_after_filtering m cs"
  let ?keep = "survives T fo"
  let ?F = "\<lambda>i (a :: representation_t list, b :: nat list).
              if i = m then (a, b[?NI ! i := ?S ! i])
              else if ?NI ! i \<noteq> ?NI ! (i + 1)
              then (a[?NI ! i := uniq ! i], b[?NI ! i := ?S ! i])
              else (a, b)"
  let ?G = "\<lambda>i (a :: representation_t list, b :: nat list).
              if ?keep i
              then (a[length (survivors T fo i) := uniq ! i],
                    b[length (survivors T fo i) := offset_after_filtering T fo i])
              else (a, b)"
  have NI: "\<And>i. i \<le> m \<Longrightarrow> ?NI ! i = length (survivors T fo i)"
    unfolding cs_def by (rule new_index_nth)
  have S: "\<And>i. i \<le> m \<Longrightarrow> ?S ! i = offset_after_filtering T fo i"
    unfolding cs_def by (rule first_occurrence_after_filtering_nth)
  have FG: "?F i = ?G i" if "i \<in> set [0..<m]" for i
  proof -
    from that have i: "i < m" "i \<le> m" "Suc i \<le> m" "i \<noteq> m" by simp_all
    have "?NI ! i \<noteq> ?NI ! (i + 1) \<longleftrightarrow> ?keep i"
      using NI [OF i(2)] NI [OF i(3)] by (simp add: survivors_Suc)
    then show ?thesis using i(4) NI [OF i(2)] S [OF i(2)] by (simp add: fun_eq_iff)
  qed
  have "fold ?F [0..<m] (a0, b0) = fold ?G [0..<m] (a0, b0)"
    by (rule fold_cong [OF refl refl]) (rule FG)
  also have "\<dots> = (scatter ?keep (\<lambda>b. uniq ! b) m a0,
                     scatter ?keep (offset_after_filtering T fo) m b0)"
    by (rule fold_pair_scatter) (simp add: survivors_def)
  finally have first: "fold ?F [0..<m] (a0, b0)
      = (scatter ?keep (\<lambda>b. uniq ! b) m a0, scatter ?keep (offset_after_filtering T fo) m b0)" .
  have len: "length (filter ?keep [0..<m]) = length (survivors T fo m)"
    by (simp add: survivors_def)
  have A: "scatter ?keep (\<lambda>b. uniq ! b) m a0 = map (\<lambda>b. uniq ! b) (survivors T fo m)"
    using scatter_result [of ?keep m a0 "\<lambda>b. uniq ! b"] a0 unfolding survivors_def by simp
  obtain x where x: "drop (length (survivors T fo m)) b0 = [x]"
    using b0 by (metis Cons_nth_drop_Suc drop_all add.commute lessI less_or_eq_imp_le plus_1_eq_Suc)
  have B: "scatter ?keep (offset_after_filtering T fo) m b0
             = map (offset_after_filtering T fo) (survivors T fo m) @ [x]"
    using scatter_result [of ?keep m b0 "offset_after_filtering T fo"] b0 x
    unfolding survivors_def by simp
  have "compress_unique_representations_after_filtering_kernel m uniq ?S ?NI (a0, b0)
          = ?F m (fold ?F [0..<m] (a0, b0))"
    by (simp add: compress_unique_representations_after_filtering_kernel_def)
  also have "\<dots> = (map (\<lambda>b. uniq ! b) (survivors T fo m),
                     (map (offset_after_filtering T fo) (survivors T fo m) @ [x])
                       [length (survivors T fo m) := offset_after_filtering T fo m])"
    using NI [of m] S [of m] by (simp add: first A B)
  finally show ?thesis by (simp add: list_update_append)
qed

lemma fold_quad:
  "fold (\<lambda>i (a, b, c, d). (fa i a, fb i b, fc i c, fd i d)) xs (a, b, c, d)
     = (fold fa xs a, fold fb xs b, fold fc xs c, fold fd xs d)"
  by (induction xs arbitrary: a b c d) auto

lemma length_write_segment [simp]:
  "length (fold (\<lambda>i out. out[off + i := g i]) [0..<c] out) = length out"
  by (induction c) auto

lemma write_segment:
  "off + c \<le> length out \<Longrightarrow>
   fold (\<lambda>i out. out[off + i := g i]) [0..<c] out
     = take off out @ map g [0..<c] @ drop (off + c) out"
proof (induction c)
  case 0
  show ?case by simp
next
  case (Suc c)
  then have lt: "off + c < length out" by simp
  have IH: "fold (\<lambda>i out. out[off + i := g i]) [0..<c] out
              = take off out @ map g [0..<c] @ drop (off + c) out"
    using Suc by simp
  have d: "drop (off + c) out = out ! (off + c) # drop (Suc (off + c)) out"
    using lt by (simp add: Cons_nth_drop_Suc)
  have "(take off out @ map g [0..<c] @ drop (off + c) out)[off + c := g c]
          = take off out @ map g [0..<c] @ g c # drop (Suc (off + c)) out"
    using lt by (simp add: d list_update_append)
  then show ?case using IH by simp
qed

lemma copy_segments_Suc:
  "copy_segments len src (Suc k) out
     = fold (\<lambda>i out. out[sum_list (map len [0..<k]) + i := src k i]) [0..<len k]
         (copy_segments len src k out)"
  by (simp add: copy_segments_def)

lemma length_copy_segments [simp]: "length (copy_segments len src k out) = length out"
  by (induction k) (simp add: copy_segments_def, simp add: copy_segments_Suc)

lemma copy_segments_result:
  "sum_list (map len [0..<k]) \<le> length out \<Longrightarrow>
   copy_segments len src k out
     = concat (map (\<lambda>b. map (src b) [0..<len b]) [0..<k])
         @ drop (sum_list (map len [0..<k])) out"
proof (induction k)
  case 0
  show ?case by (simp add: copy_segments_def)
next
  case (Suc k)
  let ?off = "sum_list (map len [0..<k])"
  let ?pre = "concat (map (\<lambda>b. map (src b) [0..<len b]) [0..<k])"
  let ?r = "copy_segments len src k out"
  from Suc.prems have le: "?off + len k \<le> length out" by simp
  then have IH: "?r = ?pre @ drop ?off out" using Suc.IH by simp
  have lpre: "length ?pre = ?off"
    by (simp add: length_concat comp_def)
  have "copy_segments len src (Suc k) out
          = take ?off ?r @ map (src k) [0..<len k] @ drop (?off + len k) ?r"
    using le by (simp add: copy_segments_Suc write_segment)
  also have "take ?off ?r = ?pre" using lpre by (simp add: IH)
  also have "drop (?off + len k) ?r = drop (?off + len k) out"
    using lpre by (simp add: IH add.commute)
  finally show ?case by simp
qed

lemma survivors_split:
  assumes "b < m" "survives T fo b"
  shows "survivors T fo m = survivors T fo b @ b # filter (survives T fo) [Suc b..<m]"
proof -
  have "[0..<b + (m - b)] = [0..<b] @ [b..<b + (m - b)]"
    by (rule upt_add_eq_append) simp
  then have "[0..<m] = [0..<b] @ b # [Suc b..<m]"
    using assms(1) by (simp add: upt_conv_Cons)
  then show ?thesis using assms(2) by (simp add: survivors_def)
qed

lemma survivor_slot:
  assumes "b < m" "survives T fo b"
  shows "(map (offset_after_filtering T fo) (survivors T fo m) @ [offset_after_filtering T fo m])
           ! length (survivors T fo b) = offset_after_filtering T fo b"
  by (simp add: survivors_split [OF assms] nth_append)

lemma compress_data_block_eq:
  assumes b: "b < m"
    and cs: "cs ! b = kept_count T fo b"
    and slot: "survives T fo b \<Longrightarrow> fo' ! (NI ! b) = offset_after_filtering T fo b"
  shows "compress_data_arrays_block m cs fo fo' NI reps rids pos dirs b (r, ri, p, d)
         = (fold (\<lambda>i out. out[offset_after_filtering T fo b + i := reps ! (fo ! b + i)])
              [0..<kept_count T fo b] r,
            fold (\<lambda>i out. out[offset_after_filtering T fo b + i := rids ! (fo ! b + i)])
              [0..<kept_count T fo b] ri,
            fold (\<lambda>i out. out[offset_after_filtering T fo b + i := pos ! (fo ! b + i)])
              [0..<kept_count T fo b] p,
            fold (\<lambda>i out. out[offset_after_filtering T fo b + i := dirs ! (fo ! b + i)])
              [0..<kept_count T fo b] d)"
proof (cases "kept_count T fo b = 0")
  case True
  then show ?thesis using b cs by (simp add: compress_data_arrays_block_def)
next
  case False
  then have "survives T fo b" by (simp add: survives_def)
  then have "fo' ! (NI ! b) = offset_after_filtering T fo b" by (rule slot)
  then show ?thesis
    using b cs False
    by (simp add: compress_data_arrays_block_def Let_def fold_quad)
qed

lemma compress_data_kernel_eq:
  assumes cs: "\<And>b. b < m \<Longrightarrow> cs ! b = kept_count T fo b"
    and slot: "\<And>b. b < m \<Longrightarrow> survives T fo b
                 \<Longrightarrow> fo' ! (NI ! b) = offset_after_filtering T fo b"
  shows "compress_data_arrays_after_filtering_kernel m m cs fo fo' NI reps rids pos dirs
           (r, ri, p, d)
         = (copy_segments (kept_count T fo) (\<lambda>b i. reps ! (fo ! b + i)) m r,
            copy_segments (kept_count T fo) (\<lambda>b i. rids ! (fo ! b + i)) m ri,
            copy_segments (kept_count T fo) (\<lambda>b i. pos ! (fo ! b + i)) m p,
            copy_segments (kept_count T fo) (\<lambda>b i. dirs ! (fo ! b + i)) m d)"
proof -
  let ?seg = "\<lambda>arr b. fold (\<lambda>i out. out[offset_after_filtering T fo b + i := arr ! (fo ! b + i)])
                          [0..<kept_count T fo b]"
  let ?G = "\<lambda>b (r, ri, p, d). (?seg reps b r, ?seg rids b ri, ?seg pos b p, ?seg dirs b d)"
  have eq: "compress_data_arrays_block m cs fo fo' NI reps rids pos dirs b = ?G b"
    if "b \<in> set [0..<m]" for b
  proof (rule ext)
    fix outs :: "representation_t list \<times> read_id_t list \<times> position_in_read_t list
                   \<times> DirectionOfRepresentation list"
    obtain r ri p d where outs: "outs = (r, ri, p, d)" by (cases outs) auto
    from that have b: "b < m" by simp
    show "compress_data_arrays_block m cs fo fo' NI reps rids pos dirs b outs = ?G b outs"
      unfolding outs using compress_data_block_eq [OF b cs [OF b] slot [OF b]] by simp
  qed
  have "compress_data_arrays_after_filtering_kernel m m cs fo fo' NI reps rids pos dirs
          (r, ri, p, d) = fold ?G [0..<m] (r, ri, p, d)"
    unfolding compress_data_arrays_after_filtering_kernel_def
    by (rule fold_cong [OF refl refl]) (rule eq)
  also have "\<dots> = (fold (?seg reps) [0..<m] r, fold (?seg rids) [0..<m] ri,
                     fold (?seg pos) [0..<m] p, fold (?seg dirs) [0..<m] d)"
    by (rule fold_quad)
  finally show ?thesis by (simp add: copy_segments_def offset_after_filtering_def)
qed

lemma length_survivors_le: "length (survivors T fo k) \<le> k"
  unfolding survivors_def by (metis diff_zero length_filter_le length_upt)

lemma filter_out_eq:
  assumes "length fo = length uniq + 1" "fo ! 0 = 0"
  shows "filter_out_most_common_representations p reps rids pos dirs uniq fo
         = (filtered_array (filtering_threshold (length reps) p) fo (length uniq) reps,
            filtered_array (filtering_threshold (length reps) p) fo (length uniq) rids,
            filtered_array (filtering_threshold (length reps) p) fo (length uniq) pos,
            filtered_array (filtering_threshold (length reps) p) fo (length uniq) dirs,
            map (\<lambda>b. uniq ! b) (survivors (filtering_threshold (length reps) p) fo (length uniq)),
            map (offset_after_filtering (filtering_threshold (length reps) p) fo)
                (survivors (filtering_threshold (length reps) p) fo (length uniq))
              @ [offset_after_filtering (filtering_threshold (length reps) p) fo (length uniq)])"
proof -
  let ?T = "filtering_threshold (length reps) p"
  let ?m = "length uniq"
  let ?cs = "map (kept_count ?T fo) [0..<?m] @ [0]"
  let ?NI = "unique_representation_index_after_filtering ?m ?cs"
  let ?K = "survivors ?T fo ?m"
  let ?fo' = "map (offset_after_filtering ?T fo) ?K @ [offset_after_filtering ?T fo ?m]"
  have cs: "mark_representations_for_filtering_out ?T
              (number_of_sketch_elements_with_each_representation fo) = ?cs"
    by (rule counts_after_filtering [OF assms])
  have lastNI: "last ?NI = length ?K"
  proof -
    have "?NI \<noteq> []" by (metis length_new_index add_is_0 length_0_conv one_neq_zero)
    then have "last ?NI = ?NI ! ?m" by (simp add: last_conv_nth)
    then show ?thesis by (simp add: new_index_nth)
  qed
  have uo: "compress_unique_representations_after_filtering_kernel ?m uniq
              (exclusive_scan ?cs) ?NI
              (device_buffer (length ?K) 0, device_buffer (length ?K + 1) 0)
            = (map (\<lambda>b. uniq ! b) ?K, ?fo')"
    by (rule compress_unique_eq) (simp_all add: device_buffer_def)
  have n': "last ?fo' = offset_after_filtering ?T fo ?m" by simp
  have csb: "\<And>b. b < ?m \<Longrightarrow> ?cs ! b = kept_count ?T fo b"
    by (simp add: nth_append)
  have slot: "\<And>b. b < ?m \<Longrightarrow> survives ?T fo b
                \<Longrightarrow> ?fo' ! (?NI ! b) = offset_after_filtering ?T fo b"
    using survivor_slot [of _ ?m ?T fo] by (simp add: new_index_nth)
  have seg: "copy_segments (kept_count ?T fo) (\<lambda>b i. arr ! (fo ! b + i)) ?m
               (device_buffer (offset_after_filtering ?T fo ?m) c)
             = filtered_array ?T fo ?m arr" for arr :: "'a list" and c
    using copy_segments_result [of "kept_count ?T fo" ?m
        "device_buffer (offset_after_filtering ?T fo ?m) c" "\<lambda>b i. arr ! (fo ! b + i)"]
    by (simp add: device_buffer_def offset_after_filtering_def filtered_array_def)
  have ker: "compress_data_arrays_after_filtering_kernel ?m ?m ?cs fo ?fo' ?NI reps rids
               pos dirs
               (device_buffer (offset_after_filtering ?T fo ?m) 0,
                device_buffer (offset_after_filtering ?T fo ?m) 0,
                device_buffer (offset_after_filtering ?T fo ?m) 0,
                device_buffer (offset_after_filtering ?T fo ?m) FORWARD)
             = (filtered_array ?T fo ?m reps, filtered_array ?T fo ?m rids,
                filtered_array ?T fo ?m pos, filtered_array ?T fo ?m dirs)"
    using compress_data_kernel_eq [of ?m ?cs ?T fo ?fo' ?NI reps rids pos dirs, OF csb slot]
    by (simp add: seg)
  show ?thesis
    unfolding filter_out_most_common_representations_def Let_def cs lastNI uo fst_conv
      snd_conv n' ker
    by (rule refl)
qed

text \<open>
  Claim C4. For an array of representations sorted ascending, with \<open>n\<close> elements and
  \<open>m\<close> distinct values, the grouping step produces \<open>m\<close> unique representations,
  strictly ascending and so without duplicates, and \<open>m + 1\<close> first occurrences, which
  start with 0, end with \<open>n\<close> and increase strictly; the \<open>i\<close>-th unique representation is
  the representation at the \<open>i\<close>-th first occurrence; \<open>m = 0\<close> for \<open>n = 0\<close> and \<open>m = 1\<close> for
  \<open>n = 1\<close>.
\<close>

theorem grouping_of_sorted_representations:
  assumes "sorted reps"
  shows "length (fst (find_first_occurrences_of_representations reps)) = card (set reps)
    \<and> sorted_wrt (<) (fst (find_first_occurrences_of_representations reps))
    \<and> distinct (fst (find_first_occurrences_of_representations reps))
    \<and> length (snd (find_first_occurrences_of_representations reps)) = card (set reps) + 1
    \<and> snd (find_first_occurrences_of_representations reps) ! 0 = 0
    \<and> last (snd (find_first_occurrences_of_representations reps)) = length reps
    \<and> sorted_wrt (<) (snd (find_first_occurrences_of_representations reps))
    \<and> (\<forall>i < card (set reps).
          fst (find_first_occurrences_of_representations reps) ! i
            = reps ! (snd (find_first_occurrences_of_representations reps) ! i))
    \<and> (length reps = 0 \<longrightarrow> card (set reps) = 0)
    \<and> (length reps = 1 \<longrightarrow> card (set reps) = 1)"
proof -
  let ?F = "boundaries reps"
  let ?u = "map (\<lambda>i. reps ! i) ?F"
  have strict: "sorted_wrt (<) ?u" by (rule sorted_unique_representations [OF assms])
  then have dist: "distinct ?u" using strict_sorted_iff by blast
  have "card (set reps) = card (set ?u)" by (simp only: set_unique_representations)
  also have "\<dots> = length ?u" using dist by (rule distinct_card)
  finally have card: "card (set reps) = length ?F" by simp
  have nth: "\<forall>i < card (set reps). ?u ! i = reps ! ((?F @ [length reps]) ! i)"
    by (simp add: card nth_append)
  have one: "length reps = 1 \<longrightarrow> card (set reps) = 1"
  proof
    assume "length reps = 1"
    then obtain x where "reps = [x]" by (cases reps) auto
    then show "card (set reps) = 1" by simp
  qed
  show ?thesis
    unfolding find_first_occurrences_eq fst_conv snd_conv
    using strict dist card nth one first_occurrence_0 [of reps]
      sorted_wrt_first_occurrence [of reps]
    by simp
qed

theorem grouping_of_sorted_representations_witness:
  "sorted [0, 0, 12, 12, 12, 23 :: representation_t]
   \<and> find_first_occurrences_of_representations [0, 0, 12, 12, 12, 23]
       = ([0, 12, 23], [0, 2, 5, 6])
   \<and> card (set [0, 0, 12, 12, 12, 23 :: representation_t]) = 3"
proof -
  have s: "sorted [0, 0, 12, 12, 12, 23 :: representation_t]" by simp
  have e: "find_first_occurrences_of_representations [0, 0, 12, 12, 12, 23]
             = ([0, 12, 23], [0, 2, 5, 6])"
    by code_simp
  from grouping_of_sorted_representations [OF s]
  have "length (fst (find_first_occurrences_of_representations [0, 0, 12, 12, 12, 23]))
          = card (set [0, 0, 12, 12, 12, 23 :: representation_t])"
    by (rule conjunct1)
  then have "card (set [0, 0, 12, 12, 12, 23 :: representation_t]) = 3"
    unfolding e by simp
  with s e show ?thesis by (intro conjI)
qed

section \<open>Splitting, and the filter with parameter 0\<close>

lemma fill_buffer:
  "n \<le> length out \<Longrightarrow> fold (\<lambda>i out. out[i := g i]) [0..<n] out = map g [0..<n] @ drop n out"
  using write_segment [of 0 n out g] by simp

lemma fold_triple:
  "fold (\<lambda>i (a, b, c). (fa i a, fb i b, fc i c)) xs (a, b, c)
     = (fold fa xs a, fold fb xs b, fold fc xs c)"
  by (induction xs arbitrary: a b c) auto

lemma map_nth_comp: "map (\<lambda>i. f (xs ! i)) [0..<length xs] = map f xs"
  by (rule nth_equalityI) simp_all

lemma copy_rest_to_separate_arrays_eq:
  assumes "length a = length rest" "length b = length rest" "length c = length rest"
  shows "copy_rest_to_separate_arrays rest (a, b, c) (length rest)
         = (map read_id_m rest, map position_in_read_m rest, map direction_m rest)"
  using assms
  by (simp add: copy_rest_to_separate_arrays_def fold_triple fill_buffer map_nth_comp)

lemma binary64_zero [simp]: "binary64 0 = 0"
  by (simp add: binary64_def)

lemma filtering_threshold_zero [simp]: "filtering_threshold n 0 = 0"
proof -
  have "\<lfloor>binary64 (binary64 (1 / 1000))\<rfloor> = 0"
    by code_simp
  then show ?thesis
    by (simp add: filtering_threshold_def)
qed

lemma kept_count_zero [simp]: "kept_count 0 fo b = 0"
  by (simp add: kept_count_def)

lemma filter_out_zero:
  assumes "length fo = length uniq + 1" "fo ! 0 = 0"
  shows "filter_out_most_common_representations 0 reps rids pos dirs uniq fo
           = ([], [], [], [], [], [0])"
  by (simp add: filter_out_eq [OF assms] filtered_array_def survivors_def survives_def
      offset_after_filtering_def)

section \<open>Properties of the generation\<close>

lemma in_read_id_range:
  fixes first_read_id :: read_id_t
  shows "read_id \<in> set (map of_nat [unat first_read_id..<unat past_the_last_read_id])
           \<longleftrightarrow> first_read_id \<le> read_id \<and> read_id < past_the_last_read_id"
proof
  assume "read_id \<in> set (map of_nat [unat first_read_id..<unat past_the_last_read_id])"
  then obtain i where i: "read_id = of_nat i" "unat first_read_id \<le> i"
      "i < unat past_the_last_read_id"
    by auto
  then have "unat read_id = i" using le_unat_uoi [of i past_the_last_read_id] by simp
  with i show "first_read_id \<le> read_id \<and> read_id < past_the_last_read_id"
    by (simp add: word_le_nat_alt word_less_nat_alt)
next
  assume "first_read_id \<le> read_id \<and> read_id < past_the_last_read_id"
  then have "unat read_id \<in> set [unat first_read_id..<unat past_the_last_read_id]"
    by (simp add: word_le_nat_alt word_less_nat_alt)
  then have "(of_nat (unat read_id) :: read_id_t)
               \<in> of_nat ` set [unat first_read_id..<unat past_the_last_read_id]"
    by (rule imageI)
  then show "read_id \<in> set (map of_nat [unat first_read_id..<unat past_the_last_read_id])"
    by (simp del: set_upt)
qed

lemma total_basepairs_fold:
  "total_basepairs (fold (count_basepairs_of_read parser k w) ids st)
     = total_basepairs st
       + sum_list (map (\<lambda>read_id. if read_qualifies k w (seq (parser read_id))
                                   then length (seq (parser read_id)) else 0) ids)"
  by (induction ids arbitrary: st) (auto simp: count_basepairs_of_read_def Let_def)

lemma total_basepairs_eq:
  "total_basepairs (count_basepairs parser k w first_read_id past_the_last_read_id)
     = sum_list (map (\<lambda>read_id. if read_qualifies k w (seq (parser read_id))
                                 then length (seq (parser read_id)) else 0)
                     (map of_nat [unat first_read_id..<unat past_the_last_read_id]))"
  by (simp add: count_basepairs_def total_basepairs_fold del: map_map)

lemma total_basepairs_zero_iff:
  "total_basepairs (count_basepairs parser k w first_read_id past_the_last_read_id) = 0
     \<longleftrightarrow> (\<forall>read_id. first_read_id \<le> read_id \<and> read_id < past_the_last_read_id
            \<longrightarrow> read_qualifies k w (seq (parser read_id)) \<longrightarrow> seq (parser read_id) = [])"
proof -
  let ?ids = "map of_nat [unat first_read_id..<unat past_the_last_read_id] :: read_id_t list"
  let ?f = "\<lambda>read_id. if read_qualifies k w (seq (parser read_id))
                       then length (seq (parser read_id)) else 0"
  have "sum_list (map ?f ids) = 0 \<longleftrightarrow> (\<forall>read_id \<in> set ids. ?f read_id = 0)" for ids
    by (induction ids) auto
  then have "sum_list (map ?f ?ids) = 0 \<longleftrightarrow> (\<forall>read_id \<in> set ?ids. ?f read_id = 0)" .
  also have "\<dots> \<longleftrightarrow> (\<forall>read_id. first_read_id \<le> read_id \<and> read_id < past_the_last_read_id
                          \<longrightarrow> ?f read_id = 0)"
    by (simp only: Ball_def in_read_id_range)
  also have "\<dots> \<longleftrightarrow> (\<forall>read_id. first_read_id \<le> read_id \<and> read_id < past_the_last_read_id
            \<longrightarrow> read_qualifies k w (seq (parser read_id)) \<longrightarrow> seq (parser read_id) = [])"
    by auto
  finally show ?thesis unfolding total_basepairs_eq .
qed

lemma generate_index_empty_range:
  "past_the_last_read_id \<le> first_read_id \<Longrightarrow>
   generate_index g parser first_read_id past_the_last_read_id h p idx
     = idx\<lparr>number_of_reads_m := 0\<rparr>"
  by (simp add: generate_index_def)

lemma generate_index_no_basepairs:
  assumes "first_read_id < past_the_last_read_id"
    and "total_basepairs (count_basepairs parser (kmer_size_m idx) (window_size_m idx)
           first_read_id past_the_last_read_id) = 0"
  shows "generate_index g parser first_read_id past_the_last_read_id h p idx
           = idx\<lparr>number_of_reads_m := 0, number_of_basepairs_in_longest_read_m := 0\<rparr>"
proof -
  from assms(1) have "\<not> past_the_last_read_id \<le> first_read_id" by simp
  with assms(2) show ?thesis by (simp add: generate_index_def Let_def)
qed

lemma generate_index_reached:
  assumes "generation_reached parser (kmer_size_m idx) (window_size_m idx) first_read_id
             past_the_last_read_id"
  shows "generate_index g parser first_read_id past_the_last_read_id h p idx
         = filter_if_requested p
             (sort_split_and_group
                (generated_sketch_elements g parser (kmer_size_m idx) (window_size_m idx)
                   first_read_id past_the_last_read_id h)
                (idx\<lparr>number_of_reads_m := past_the_last_read_id - first_read_id,
                     number_of_basepairs_in_longest_read_m :=
                       longest_read (count_basepairs parser (kmer_size_m idx)
                         (window_size_m idx) first_read_id past_the_last_read_id)\<rparr>))"
proof -
  from assms have "\<not> past_the_last_read_id \<le> first_read_id"
    and "total_basepairs (count_basepairs parser (kmer_size_m idx) (window_size_m idx)
           first_read_id past_the_last_read_id) \<noteq> 0"
    by (auto simp: generation_reached_def)
  then show ?thesis by (simp add: generate_index_def Let_def)
qed

lemma separate_arrays_of_sorted:
  "copy_rest_to_separate_arrays (snd (stable_sort_by_key ks vs))
     (device_buffer (length (fst (stable_sort_by_key ks vs))) a,
      device_buffer (length (fst (stable_sort_by_key ks vs))) b,
      device_buffer (length (fst (stable_sort_by_key ks vs))) c)
     (length (fst (stable_sort_by_key ks vs)))
   = (map (\<lambda>e. read_id_m (snd e)) (sort_key fst (zip ks vs)),
      map (\<lambda>e. position_in_read_m (snd e)) (sort_key fst (zip ks vs)),
      map (\<lambda>e. direction_m (snd e)) (sort_key fst (zip ks vs)))"
proof -
  let ?s = "sort_key fst (zip ks vs)"
  have "copy_rest_to_separate_arrays (map snd ?s)
          (device_buffer (length ?s) a, device_buffer (length ?s) b, device_buffer (length ?s) c)
          (length (map snd ?s))
        = (map read_id_m (map snd ?s), map position_in_read_m (map snd ?s),
           map direction_m (map snd ?s))"
    by (rule copy_rest_to_separate_arrays_eq) (simp_all add: device_buffer_def)
  then show ?thesis by (simp add: stable_sort_by_key_def Let_def comp_def)
qed

lemma index_arrays_sort_split_and_group:
  "index_arrays (sort_split_and_group sketch_elements idx) = unfiltered_arrays sketch_elements"
proof -
  have "fst (stable_sort_by_key ks vs) = map fst (sort_key fst (zip ks vs))"
    for ks :: "representation_t list" and vs :: "ReadidPositionDirection list"
    by (simp add: stable_sort_by_key_def Let_def)
  then show ?thesis
    unfolding sort_split_and_group_def Let_def separate_arrays_of_sorted unfiltered_arrays_def
    by (simp add: index_arrays_def)
qed

lemma scalars_sort_split_and_group:
  "number_of_reads_m (sort_split_and_group sketch_elements idx) = number_of_reads_m idx"
  "first_read_id_m (sort_split_and_group sketch_elements idx) = first_read_id_m idx"
  by (simp_all add: sort_split_and_group_def Let_def)

lemma scalars_filter_if_requested:
  "number_of_reads_m (filter_if_requested p idx) = number_of_reads_m idx"
  "first_read_id_m (filter_if_requested p idx) = first_read_id_m idx"
  by (simp_all add: filter_if_requested_def Let_def)

lemma index_arrays_filter_if_requested:
  "index_arrays (filter_if_requested p idx)
     = (if p < 1
        then (case index_arrays idx of
                (reps, rids, pos, dirs, uniq, fo) \<Rightarrow>
                  filter_out_most_common_representations p reps rids pos dirs uniq fo)
        else index_arrays idx)"
  by (simp add: filter_if_requested_def Let_def index_arrays_def)

lemma generation_reached_iff:
  "generation_reached parser k w first_read_id past_the_last_read_id
     \<longleftrightarrow> (\<exists>read_id. first_read_id \<le> read_id \<and> read_id < past_the_last_read_id
            \<and> read_qualifies k w (seq (parser read_id)) \<and> seq (parser read_id) \<noteq> [])"
proof -
  have "0 < total_basepairs (count_basepairs parser k w first_read_id past_the_last_read_id)
          \<longleftrightarrow> (\<exists>read_id. first_read_id \<le> read_id \<and> read_id < past_the_last_read_id
            \<and> read_qualifies k w (seq (parser read_id)) \<and> seq (parser read_id) \<noteq> [])"
    using total_basepairs_zero_iff [of parser k w first_read_id past_the_last_read_id]
    by auto
  moreover have "first_read_id < past_the_last_read_id"
    if "first_read_id \<le> read_id" "read_id < past_the_last_read_id" for read_id
    using that by simp
  ultimately show ?thesis unfolding generation_reached_def by blast
qed

lemma generate_index_not_reached:
  assumes "\<not> generation_reached parser (kmer_size_m idx) (window_size_m idx) first_read_id
             past_the_last_read_id"
  shows "index_arrays (generate_index g parser first_read_id past_the_last_read_id h p idx)
           = index_arrays idx"
    and "number_of_reads_m (generate_index g parser first_read_id past_the_last_read_id h p idx)
           = 0"
proof -
  consider "past_the_last_read_id \<le> first_read_id"
    | "first_read_id < past_the_last_read_id"
      "total_basepairs (count_basepairs parser (kmer_size_m idx) (window_size_m idx)
         first_read_id past_the_last_read_id) = 0"
    using assms unfolding generation_reached_def by fastforce
  then have "generate_index g parser first_read_id past_the_last_read_id h p idx
               = idx\<lparr>number_of_reads_m := 0\<rparr>
             \<or> generate_index g parser first_read_id past_the_last_read_id h p idx
               = idx\<lparr>number_of_reads_m := 0, number_of_basepairs_in_longest_read_m := 0\<rparr>"
    by cases (simp_all add: generate_index_empty_range generate_index_no_basepairs)
  then show "index_arrays (generate_index g parser first_read_id past_the_last_read_id h p idx)
           = index_arrays idx"
    and "number_of_reads_m (generate_index g parser first_read_id past_the_last_read_id h p idx)
           = 0"
    by (auto simp: index_arrays_def)
qed

lemma filter_at_one_is_not_the_identity:
  "filter_out_most_common_representations 1 [7, 7] [0, 1] [4, 2] [FORWARD, REVERSE] [7] [0, 2]
     = ([], [], [], [], [], [0])"
  by code_simp

text \<open>
  Claim C3. For every input, the six arrays of an index constructed with
  \<open>filtering_parameter = 1.0\<close> are the unfiltered result of generation, sorting, splitting
  and grouping (and six empty arrays when the construction ends before the generation).
  The filter is not run: by \<open>filter_at_one_is_not_the_identity\<close>, run with 1.0 it would
  remove a representation that all sketch elements share.
\<close>

theorem filtering_parameter_one_bypasses_filter:
  "index_arrays (IndexGPU_generate g parser descriptor kmer_size window_size h 1)
     = (if generation_reached parser kmer_size window_size (first_read descriptor)
             (first_read descriptor + number_of_reads_in_descriptor descriptor)
        then unfiltered_arrays
               (generated_sketch_elements g parser kmer_size window_size
                  (first_read descriptor)
                  (first_read descriptor + number_of_reads_in_descriptor descriptor) h)
        else ([], [], [], [], [], []))"
proof (cases "generation_reached parser kmer_size window_size (first_read descriptor)
             (first_read descriptor + number_of_reads_in_descriptor descriptor)")
  case True
  then show ?thesis
    by (simp add: IndexGPU_generate_def generate_index_reached
        index_arrays_filter_if_requested index_arrays_sort_split_and_group)
next
  case False
  then show ?thesis
    by (simp add: IndexGPU_generate_def generate_index_not_reached(1))
      (simp add: index_arrays_def)
qed

lemma accessors_after_wait:
  "representations (wait_to_be_ready idx) = Inr (representations_d_m idx)"
  "read_ids (wait_to_be_ready idx) = Inr (read_ids_d_m idx)"
  "positions_in_reads (wait_to_be_ready idx) = Inr (positions_in_reads_d_m idx)"
  "directions_of_reads (wait_to_be_ready idx) = Inr (directions_of_reads_d_m idx)"
  "unique_representations (wait_to_be_ready idx) = Inr (unique_representations_d_m idx)"
  "first_occurrence_of_representations (wait_to_be_ready idx)
     = Inr (first_occurrence_of_representations_d_m idx)"
  "number_of_reads (wait_to_be_ready idx) = Inr (number_of_reads_m idx)"
  "smallest_read_id (wait_to_be_ready idx)
     = Inr (if number_of_reads_m idx > 0 then first_read_id_m idx else 0)"
  "largest_read_id (wait_to_be_ready idx)
     = Inr (if number_of_reads_m idx > 0
            then first_read_id_m idx + number_of_reads_m idx - 1 else 0)"
  by (simp_all add: representations_def read_ids_def positions_in_reads_def
      directions_of_reads_def unique_representations_def
      first_occurrence_of_representations_def number_of_reads_def smallest_read_id_def
      largest_read_id_def is_ready_wait_to_be_ready)
    (simp_all add: wait_to_be_ready_def split: WayOfConstruciton.splits)

lemma arrays_of_index_arrays:
  "representations_d_m idx = fst (index_arrays idx)"
  "read_ids_d_m idx = fst (snd (index_arrays idx))"
  "positions_in_reads_d_m idx = fst (snd (snd (index_arrays idx)))"
  "directions_of_reads_d_m idx = fst (snd (snd (snd (index_arrays idx))))"
  "unique_representations_d_m idx = fst (snd (snd (snd (snd (index_arrays idx)))))"
  "first_occurrence_of_representations_d_m idx
     = snd (snd (snd (snd (snd (index_arrays idx)))))"
  by (simp_all add: index_arrays_def)

text \<open>
  Claim C6. When the read range is empty, or every read of the range is shorter than
  \<open>window_size + kmer_size - 1\<close>, the constructed index is, once \<open>wait_to_be_ready\<close> has
  returned, ready and empty: \<open>number_of_reads\<close> returns 0 and each of the six arrays has
  size 0; no accessor fails.
\<close>

theorem empty_index_is_valid:
  assumes "first_read descriptor + number_of_reads_in_descriptor descriptor
             \<le> first_read descriptor
           \<or> (\<forall>read_id. first_read descriptor \<le> read_id
                  \<and> read_id < first_read descriptor + number_of_reads_in_descriptor descriptor
                \<longrightarrow> (of_nat (length (seq (parser read_id))) :: 64 word)
                      < window_size + kmer_size - 1)"
  shows "is_ready (wait_to_be_ready
                     (IndexGPU_generate g parser descriptor kmer_size window_size h p))
    \<and> number_of_reads (wait_to_be_ready
                         (IndexGPU_generate g parser descriptor kmer_size window_size h p))
        = Inr 0
    \<and> representations (wait_to_be_ready
                         (IndexGPU_generate g parser descriptor kmer_size window_size h p))
        = Inr []
    \<and> read_ids (wait_to_be_ready
                  (IndexGPU_generate g parser descriptor kmer_size window_size h p))
        = Inr []
    \<and> positions_in_reads (wait_to_be_ready
                            (IndexGPU_generate g parser descriptor kmer_size window_size h p))
        = Inr []
    \<and> directions_of_reads (wait_to_be_ready
                             (IndexGPU_generate g parser descriptor kmer_size window_size h p))
        = Inr []
    \<and> unique_representations (wait_to_be_ready
                                (IndexGPU_generate g parser descriptor kmer_size window_size h p))
        = Inr []
    \<and> first_occurrence_of_representations
          (wait_to_be_ready (IndexGPU_generate g parser descriptor kmer_size window_size h p))
        = Inr []"
proof -
  let ?first = "first_read descriptor"
  let ?past = "first_read descriptor + number_of_reads_in_descriptor descriptor"
  let ?idx0 = "\<lparr>representations_d_m = [], read_ids_d_m = [], positions_in_reads_d_m = [],
        directions_of_reads_d_m = [], unique_representations_d_m = [],
        first_occurrence_of_representations_d_m = [],
        first_read_id_m = first_read descriptor, kmer_size_m = kmer_size,
        window_size_m = window_size, number_of_reads_m = 0,
        number_of_basepairs_in_longest_read_m = 0, way_of_construciton_m = generation,
        is_ready_m = False, index_host_copy_source_m = None\<rparr>"
  have "\<not> generation_reached parser kmer_size window_size ?first ?past"
    using assms unfolding generation_reached_iff read_qualifies_def by (auto simp: not_le)
  then have nr: "\<not> generation_reached parser (kmer_size_m ?idx0) (window_size_m ?idx0)
                    ?first ?past"
    by simp
  have arrays: "index_arrays (IndexGPU_generate g parser descriptor kmer_size window_size h p)
                  = ([], [], [], [], [], [])"
    unfolding IndexGPU_generate_def generate_index_not_reached(1) [OF nr]
    by (simp add: index_arrays_def)
  have reads: "number_of_reads_m
                 (IndexGPU_generate g parser descriptor kmer_size window_size h p) = 0"
    unfolding IndexGPU_generate_def by (rule generate_index_not_reached(2) [OF nr])
  show ?thesis
    unfolding accessors_after_wait reads
    by (simp add: is_ready_wait_to_be_ready arrays_of_index_arrays arrays)
qed

theorem empty_index_is_valid_witness:
  "is_ready (wait_to_be_ready
      (IndexGPU_generate no_sketch_elements short_read_parser
         \<lparr>first_read = 0, number_of_reads_in_descriptor = 2\<rparr> 4 2 True 1))
   \<and> number_of_reads (wait_to_be_ready
      (IndexGPU_generate no_sketch_elements short_read_parser
         \<lparr>first_read = 0, number_of_reads_in_descriptor = 2\<rparr> 4 2 True 1)) = Inr 0
   \<and> first_occurrence_of_representations (wait_to_be_ready
      (IndexGPU_generate no_sketch_elements short_read_parser
         \<lparr>first_read = 0, number_of_reads_in_descriptor = 2\<rparr> 4 2 True 1)) = Inr []"
proof -
  have "\<forall>read_id. first_read \<lparr>first_read = 0, number_of_reads_in_descriptor = 2\<rparr> \<le> read_id
          \<and> read_id < first_read \<lparr>first_read = 0, number_of_reads_in_descriptor = 2\<rparr>
               + number_of_reads_in_descriptor
                   \<lparr>first_read = 0, number_of_reads_in_descriptor = 2\<rparr>
          \<longrightarrow> (of_nat (length (seq (short_read_parser read_id))) :: 64 word) < 2 + 4 - 1"
    by (simp add: short_read_parser_def)
  then show ?thesis
    using empty_index_is_valid [of "\<lparr>first_read = 0, number_of_reads_in_descriptor = 2\<rparr>"
        short_read_parser 2 4 no_sketch_elements True 1]
    by blast
qed

text \<open>
  Claim C9, as stated, fails: with \<open>kmer_size = 1\<close> and \<open>window_size = 0\<close> a read without
  basepairs qualifies, but the index of a range that holds only such reads is empty and
  \<open>number_of_reads\<close> returns 0, not the size of the range.
\<close>

theorem number_of_reads_counterexample:
  "first_read \<lparr>first_read = 0, number_of_reads_in_descriptor = 1\<rparr> \<le> 0
   \<and> 0 < first_read \<lparr>first_read = 0, number_of_reads_in_descriptor = 1\<rparr>
         + number_of_reads_in_descriptor \<lparr>first_read = 0, number_of_reads_in_descriptor = 1\<rparr>
   \<and> read_qualifies 1 0 (seq (empty_read_parser 0))
   \<and> number_of_reads
         (wait_to_be_ready
            (IndexGPU_generate no_sketch_elements empty_read_parser
               \<lparr>first_read = 0, number_of_reads_in_descriptor = 1\<rparr> 1 0 True 1))
       = Inr 0
   \<and> number_of_reads
         (wait_to_be_ready
            (IndexGPU_generate no_sketch_elements empty_read_parser
               \<lparr>first_read = 0, number_of_reads_in_descriptor = 1\<rparr> 1 0 True 1))
       \<noteq> Inr (number_of_reads_in_descriptor
                \<lparr>first_read = 0, number_of_reads_in_descriptor = 1\<rparr>)"
  by code_simp

text \<open>
  Claim C9, amended. If at least one read of the range qualifies and has at least one
  basepair, then \<open>number_of_reads\<close> returns the size of the whole range, skipped reads
  included, \<open>smallest_read_id\<close> returns the first read id of the range and
  \<open>largest_read_id\<close> returns the first read id plus the number of reads minus 1.
\<close>

theorem number_of_reads_counts_skipped_reads:
  assumes "first_read descriptor \<le> read_id"
    and "read_id < first_read descriptor + number_of_reads_in_descriptor descriptor"
    and "read_qualifies kmer_size window_size (seq (parser read_id))"
    and "seq (parser read_id) \<noteq> []"
  shows "number_of_reads
           (wait_to_be_ready (IndexGPU_generate g parser descriptor kmer_size window_size h p))
         = Inr (number_of_reads_in_descriptor descriptor)
    \<and> smallest_read_id
           (wait_to_be_ready (IndexGPU_generate g parser descriptor kmer_size window_size h p))
         = Inr (first_read descriptor)
    \<and> largest_read_id
           (wait_to_be_ready (IndexGPU_generate g parser descriptor kmer_size window_size h p))
         = Inr (first_read descriptor + number_of_reads_in_descriptor descriptor - 1)"
proof -
  let ?first = "first_read descriptor"
  let ?past = "first_read descriptor + number_of_reads_in_descriptor descriptor"
  let ?idx0 = "\<lparr>representations_d_m = [], read_ids_d_m = [], positions_in_reads_d_m = [],
        directions_of_reads_d_m = [], unique_representations_d_m = [],
        first_occurrence_of_representations_d_m = [],
        first_read_id_m = first_read descriptor, kmer_size_m = kmer_size,
        window_size_m = window_size, number_of_reads_m = 0,
        number_of_basepairs_in_longest_read_m = 0, way_of_construciton_m = generation,
        is_ready_m = False, index_host_copy_source_m = None\<rparr>"
  have "generation_reached parser kmer_size window_size ?first ?past"
    unfolding generation_reached_iff using assms by blast
  then have r: "generation_reached parser (kmer_size_m ?idx0) (window_size_m ?idx0) ?first ?past"
    by simp
  have n: "number_of_reads_m
             (IndexGPU_generate g parser descriptor kmer_size window_size h p)
           = number_of_reads_in_descriptor descriptor"
    unfolding IndexGPU_generate_def generate_index_reached [OF r]
    by (simp add: scalars_filter_if_requested scalars_sort_split_and_group)
  have f: "first_read_id_m
             (IndexGPU_generate g parser descriptor kmer_size window_size h p)
           = first_read descriptor"
    unfolding IndexGPU_generate_def generate_index_reached [OF r]
    by (simp add: scalars_filter_if_requested scalars_sort_split_and_group)
  have "number_of_reads_in_descriptor descriptor \<noteq> 0"
    using assms(1,2) by auto
  then have pos: "0 < number_of_reads_in_descriptor descriptor"
    by (simp add: word_neq_0_conv)
  show ?thesis unfolding accessors_after_wait n f using pos by simp
qed

theorem number_of_reads_counts_skipped_reads_witness:
  "number_of_reads
     (wait_to_be_ready
        (IndexGPU_generate three_sketch_elements two_reads_parser
           \<lparr>first_read = 0, number_of_reads_in_descriptor = 2\<rparr> 4 1 True 1))
     = Inr 2
   \<and> smallest_read_id
     (wait_to_be_ready
        (IndexGPU_generate three_sketch_elements two_reads_parser
           \<lparr>first_read = 0, number_of_reads_in_descriptor = 2\<rparr> 4 1 True 1))
     = Inr 0
   \<and> largest_read_id
     (wait_to_be_ready
        (IndexGPU_generate three_sketch_elements two_reads_parser
           \<lparr>first_read = 0, number_of_reads_in_descriptor = 2\<rparr> 4 1 True 1))
     = Inr 1
   \<and> \<not> read_qualifies 4 1 (seq (two_reads_parser 0))"
proof -
  have 1: "first_read \<lparr>first_read = 0, number_of_reads_in_descriptor = 2\<rparr> \<le> (1 :: read_id_t)"
    by simp
  have 2: "(1 :: read_id_t) < first_read \<lparr>first_read = 0, number_of_reads_in_descriptor = 2\<rparr>
        + number_of_reads_in_descriptor \<lparr>first_read = 0, number_of_reads_in_descriptor = 2\<rparr>"
    by simp
  have 3: "read_qualifies 4 1 (seq (two_reads_parser 1))"
    by (simp add: read_qualifies_def two_reads_parser_def)
  have 4: "seq (two_reads_parser 1) \<noteq> []"
    by (simp add: two_reads_parser_def)
  have 5: "\<not> read_qualifies 4 1 (seq (two_reads_parser 0))"
    by (simp add: read_qualifies_def two_reads_parser_def)
  show ?thesis
    using number_of_reads_counts_skipped_reads
      [of "\<lparr>first_read = 0, number_of_reads_in_descriptor = 2\<rparr>" 1 4 1 two_reads_parser
        three_sketch_elements True 1, OF 1 2 3 4] 5
    by simp
qed

text \<open>
  Claim C10. When the construction gets as far as generating sketch elements and
  generates at least one, \<open>filtering_parameter = 0.0\<close> removes every representation:
  the threshold is \<open>floor (0 * n + 0.001) = 0\<close>, the four data arrays and the unique
  representations are empty after filtering, and the first occurrences are \<open>[0]\<close>.
\<close>

theorem filtering_parameter_zero_removes_everything:
  assumes "generation_reached parser kmer_size window_size (first_read descriptor)
             (first_read descriptor + number_of_reads_in_descriptor descriptor)"
    and "generated_representations_d
           (generated_sketch_elements g parser kmer_size window_size (first_read descriptor)
              (first_read descriptor + number_of_reads_in_descriptor descriptor) h) \<noteq> []"
  shows "representations
           (wait_to_be_ready (IndexGPU_generate g parser descriptor kmer_size window_size h 0))
         = Inr []
    \<and> read_ids
           (wait_to_be_ready (IndexGPU_generate g parser descriptor kmer_size window_size h 0))
         = Inr []
    \<and> positions_in_reads
           (wait_to_be_ready (IndexGPU_generate g parser descriptor kmer_size window_size h 0))
         = Inr []
    \<and> directions_of_reads
           (wait_to_be_ready (IndexGPU_generate g parser descriptor kmer_size window_size h 0))
         = Inr []
    \<and> unique_representations
           (wait_to_be_ready (IndexGPU_generate g parser descriptor kmer_size window_size h 0))
         = Inr []
    \<and> first_occurrence_of_representations
           (wait_to_be_ready (IndexGPU_generate g parser descriptor kmer_size window_size h 0))
         = Inr [0]
    \<and> filtering_threshold n 0 = 0"
proof -
  let ?first = "first_read descriptor"
  let ?past = "first_read descriptor + number_of_reads_in_descriptor descriptor"
  let ?idx0 = "\<lparr>representations_d_m = [], read_ids_d_m = [], positions_in_reads_d_m = [],
        directions_of_reads_d_m = [], unique_representations_d_m = [],
        first_occurrence_of_representations_d_m = [],
        first_read_id_m = first_read descriptor, kmer_size_m = kmer_size,
        window_size_m = window_size, number_of_reads_m = 0,
        number_of_basepairs_in_longest_read_m = 0, way_of_construciton_m = generation,
        is_ready_m = False, index_host_copy_source_m = None\<rparr>"
  from assms(1) have r: "generation_reached parser (kmer_size_m ?idx0) (window_size_m ?idx0)
                        ?first ?past"
    by simp
  have z: "(case find_first_occurrences_of_representations reps of
              (uniq, fo) \<Rightarrow> filter_out_most_common_representations 0 reps rids pos dirs uniq fo)
           = ([], [], [], [], [], [0])" for reps rids pos dirs
    unfolding find_first_occurrences_eq prod.case
    by (rule filter_out_zero) (simp_all add: first_occurrence_0)
  have "index_arrays (IndexGPU_generate g parser descriptor kmer_size window_size h 0)
          = ([], [], [], [], [], [0])"
    unfolding IndexGPU_generate_def generate_index_reached [OF r]
      index_arrays_filter_if_requested index_arrays_sort_split_and_group
    by (simp add: unfiltered_arrays_def Let_def z)
  then show ?thesis
    unfolding accessors_after_wait by (simp add: arrays_of_index_arrays)
qed

theorem filtering_parameter_zero_removes_everything_witness:
  "generation_reached two_reads_parser 4 1 0 2
   \<and> representations
         (wait_to_be_ready
            (IndexGPU_generate three_sketch_elements two_reads_parser
               \<lparr>first_read = 0, number_of_reads_in_descriptor = 2\<rparr> 4 1 True 0))
       = Inr []
   \<and> unique_representations
         (wait_to_be_ready
            (IndexGPU_generate three_sketch_elements two_reads_parser
               \<lparr>first_read = 0, number_of_reads_in_descriptor = 2\<rparr> 4 1 True 0))
       = Inr []
   \<and> first_occurrence_of_representations
         (wait_to_be_ready
            (IndexGPU_generate three_sketch_elements two_reads_parser
               \<lparr>first_read = 0, number_of_reads_in_descriptor = 2\<rparr> 4 1 True 0))
       = Inr [0]
   \<and> representations
         (wait_to_be_ready
            (IndexGPU_generate three_sketch_elements two_reads_parser
               \<lparr>first_read = 0, number_of_reads_in_descriptor = 2\<rparr> 4 1 True 1))
       = Inr [3, 7, 7]"
proof -
  have r: "generation_reached two_reads_parser 4 1 0 2" by code_simp
  then have "generation_reached two_reads_parser 4 1
               (first_read \<lparr>first_read = 0, number_of_reads_in_descriptor = 2\<rparr>)
               (first_read \<lparr>first_read = 0, number_of_reads_in_descriptor = 2\<rparr>
                  + number_of_reads_in_descriptor
                      \<lparr>first_read = 0, number_of_reads_in_descriptor = 2\<rparr>)"
    by simp
  moreover have "generated_representations_d
           (generated_sketch_elements three_sketch_elements two_reads_parser 4 1
              (first_read \<lparr>first_read = 0, number_of_reads_in_descriptor = 2\<rparr>)
              (first_read \<lparr>first_read = 0, number_of_reads_in_descriptor = 2\<rparr>
                 + number_of_reads_in_descriptor
                     \<lparr>first_read = 0, number_of_reads_in_descriptor = 2\<rparr>) True) \<noteq> []"
    by code_simp
  ultimately have z: "representations
         (wait_to_be_ready
            (IndexGPU_generate three_sketch_elements two_reads_parser
               \<lparr>first_read = 0, number_of_reads_in_descriptor = 2\<rparr> 4 1 True 0))
       = Inr []
   \<and> unique_representations
         (wait_to_be_ready
            (IndexGPU_generate three_sketch_elements two_reads_parser
               \<lparr>first_read = 0, number_of_reads_in_descriptor = 2\<rparr> 4 1 True 0))
       = Inr []
   \<and> first_occurrence_of_representations
         (wait_to_be_ready
            (IndexGPU_generate three_sketch_elements two_reads_parser
               \<lparr>first_read = 0, number_of_reads_in_descriptor = 2\<rparr> 4 1 True 0))
       = Inr [0]"
    using filtering_parameter_zero_removes_everything
      [of two_reads_parser 4 1 "\<lparr>first_read = 0, number_of_reads_in_descriptor = 2\<rparr>"
        three_sketch_elements True]
    by blast
  have u: "representations
         (wait_to_be_ready
            (IndexGPU_generate three_sketch_elements two_reads_parser
               \<lparr>first_read = 0, number_of_reads_in_descriptor = 2\<rparr> 4 1 True 1))
       = Inr [3, 7, 7]"
    by code_simp
  from r z u show ?thesis by blast
qed

section \<open>The examples of the documentation\<close>

text \<open>
  The examples in the comments of index\_gpu.cuh, evaluated on the embedding: the
  grouping of 21 representations, and the filter with \<open>filtering_parameter = 0.2\<close>, the
  binary64 number nearest to \<open>1 / 5\<close>, on an index of 20 sketch elements.
\<close>

lemma documented_grouping:
  "find_first_occurrences_of_representations
     [0, 0, 0, 0, 12, 12, 12, 12, 12, 12, 23, 23, 23, 32, 32, 32, 32, 32, 46, 46, 46]
   = ([0, 12, 23, 32, 46], [0, 4, 10, 13, 18, 21])"
  by code_simp

lemma documented_filtering:
  "filter_out_most_common_representations (binary64 (1 / 5))
     [1, 1, 3, 3, 5, 5, 5, 5, 6, 6, 6, 6, 6, 6, 7, 7, 7, 8, 8, 8]
     [0, 1, 3, 5, 3, 4, 6, 6, 0, 1, 2, 2, 2, 3, 7, 8, 9, 1, 2, 3]
     [0, 0, 1, 1, 4, 5, 8, 9, 3, 6, 7, 8, 9, 5, 4, 7, 3, 7, 8, 9]
     [FORWARD, FORWARD, FORWARD, FORWARD, REVERSE, REVERSE, REVERSE, FORWARD, REVERSE,
      FORWARD, FORWARD, REVERSE, REVERSE, FORWARD, FORWARD, REVERSE, REVERSE, FORWARD,
      FORWARD, FORWARD]
     [1, 3, 5, 6, 7, 8] [0, 2, 4, 8, 14, 17, 20]
   = ([1, 1, 3, 3, 7, 7, 7, 8, 8, 8],
      [0, 1, 3, 5, 7, 8, 9, 1, 2, 3],
      [0, 0, 1, 1, 4, 7, 3, 7, 8, 9],
      [FORWARD, FORWARD, FORWARD, FORWARD, FORWARD, REVERSE, REVERSE, FORWARD, FORWARD,
       FORWARD],
      [1, 3, 7, 8], [0, 2, 4, 7, 10])"
  by code_simp

text \<open>
  Claim C2. On the representations \<open>[5,5,5,5,9,9,3,3,3,3,3]\<close> with \<open>filtering_parameter =
  0.3\<close> the threshold is 3; grouping gives the unique representations \<open>[5,9,3]\<close> with the
  first occurrences \<open>[0,4,6,11]\<close>; the filter removes the groups of 5 and of 3 and keeps
  the group of 9: the data arrays keep exactly the two sketch elements of representation
  9 (the elements 4 and 5 of the input), the unique representations become \<open>[9]\<close> and the
  first occurrences \<open>[0,2]\<close>. This holds for the parameter \<open>3 / 10\<close> and for the binary64
  number nearest to it, which the literal \<open>0.3\<close> denotes in the program.
\<close>

theorem scenario_A:
  "filtering_threshold 11 (3 / 10) = 3
   \<and> find_first_occurrences_of_representations [5, 5, 5, 5, 9, 9, 3, 3, 3, 3, 3]
       = ([5, 9, 3], [0, 4, 6, 11])
   \<and> filter_out_most_common_representations (3 / 10) [5, 5, 5, 5, 9, 9, 3, 3, 3, 3, 3]
         [r0, r1, r2, r3, r4, r5, r6, r7, r8, r9, r10]
         [p0, p1, p2, p3, p4, p5, p6, p7, p8, p9, p10]
         [d0, d1, d2, d3, d4, d5, d6, d7, d8, d9, d10]
         [5, 9, 3] [0, 4, 6, 11]
       = ([9, 9], [r4, r5], [p4, p5], [d4, d5], [9], [0, 2])
   \<and> filtering_threshold 11 (binary64 (3 / 10)) = 3
   \<and> filter_out_most_common_representations (binary64 (3 / 10))
         [5, 5, 5, 5, 9, 9, 3, 3, 3, 3, 3]
         [r0, r1, r2, r3, r4, r5, r6, r7, r8, r9, r10]
         [p0, p1, p2, p3, p4, p5, p6, p7, p8, p9, p10]
         [d0, d1, d2, d3, d4, d5, d6, d7, d8, d9, d10]
         [5, 9, 3] [0, 4, 6, 11]
       = ([9, 9], [r4, r5], [p4, p5], [d4, d5], [9], [0, 2])"
  by code_simp

section \<open>The filter on a consistent index\<close>

lemma index_wf_sorted: "index_wf reps uniq fo \<Longrightarrow> sorted fo"
  unfolding index_wf_def using strict_sorted_imp_sorted by blast

lemma index_wf_group_nonempty:
  assumes "index_wf reps uniq fo" "b < length uniq"
  shows "fo ! b < fo ! Suc b"
  using assms unfolding index_wf_def by (simp add: sorted_wrt_iff_nth_less)

lemma index_wf_group:
  assumes "index_wf reps uniq fo" "b < length uniq" "fo ! b \<le> j" "j < fo ! Suc b"
  shows "reps ! j = uniq ! b"
  using assms unfolding index_wf_def by simp

lemma upt_partition:
  assumes "sorted fo" "k < length fo"
  shows "concat (map (\<lambda>b. [fo ! b..<fo ! Suc b]) [0..<k]) = [fo ! 0..<fo ! k]"
  using assms(2)
proof (induction k)
  case 0
  show ?case by simp
next
  case (Suc k)
  then have IH: "concat (map (\<lambda>b. [fo ! b..<fo ! Suc b]) [0..<k]) = [fo ! 0..<fo ! k]"
    by simp
  have le1: "fo ! 0 \<le> fo ! k" using assms(1) Suc.prems by (simp add: sorted_nth_mono)
  have le2: "fo ! k \<le> fo ! Suc k" using assms(1) Suc.prems by (simp add: sorted_nth_mono)
  have "[fo ! 0..<fo ! k + (fo ! Suc k - fo ! k)]
          = [fo ! 0..<fo ! k] @ [fo ! k..<fo ! k + (fo ! Suc k - fo ! k)]"
    using le1 by (rule upt_add_eq_append)
  then have "[fo ! 0..<fo ! Suc k] = [fo ! 0..<fo ! k] @ [fo ! k..<fo ! Suc k]"
    using le2 by simp
  then show ?case using IH by simp
qed

lemma index_wf_partition:
  assumes "index_wf reps uniq fo"
  shows "concat (map (\<lambda>b. [fo ! b..<fo ! Suc b]) [0..<length uniq]) = [0..<length reps]"
proof -
  from assms have len: "length fo = length uniq + 1" and z: "fo ! 0 = 0"
    and l: "last fo = length reps"
    by (simp_all add: index_wf_def)
  from len have "fo \<noteq> []" by auto
  then have "last fo = fo ! length uniq" using len by (simp add: last_conv_nth)
  with l have "fo ! length uniq = length reps" by simp
  then show ?thesis
    using upt_partition [OF index_wf_sorted [OF assms], of "length uniq"] len z by simp
qed

lemma sum_list_single:
  "b < m \<Longrightarrow> sum_list (map (\<lambda>b'. if b' = b then f b' else 0) [0..<m]) = (f b :: nat)"
proof (induction m)
  case 0
  then show ?case by simp
next
  case (Suc m)
  show ?case
  proof (cases "b = m")
    case True
    have "sum_list (map (\<lambda>b'. if b' = m then f b' else 0) [0..<m]) = 0"
      by simp
    with True show ?thesis by simp
  next
    case False
    with Suc show ?thesis by simp
  qed
qed

lemma count_list_by_positions:
  "count_list xs r = length (filter (\<lambda>j. xs ! j = r) [0..<length xs])"
proof -
  have "count_list (map (\<lambda>j. xs ! j) [0..<length xs]) r
          = length (filter (\<lambda>j. xs ! j = r) [0..<length xs])"
    unfolding count_list_eq_length_filter filter_map length_map comp_def
    by (rule arg_cong [where f = length], rule filter_cong) auto
  then show ?thesis by (simp add: map_nth)
qed

lemma index_wf_count:
  assumes wf: "index_wf reps uniq fo" and b: "b < length uniq"
  shows "count_list reps (uniq ! b) = fo ! Suc b - fo ! b"
proof -
  let ?m = "length uniq"
  have dist: "distinct uniq" using wf by (simp add: index_wf_def)
  have seg: "length (filter (\<lambda>j. reps ! j = uniq ! b) [fo ! b'..<fo ! Suc b'])
               = (if b' = b then fo ! Suc b' - fo ! b' else 0)"
    if "b' \<in> set [0..<?m]" for b'
  proof -
    from that have b': "b' < ?m" by simp
    have in_group: "reps ! j = uniq ! b'" if "j \<in> set [fo ! b'..<fo ! Suc b']" for j
      using that index_wf_group [OF wf b'] by simp
    show ?thesis
    proof (cases "b' = b")
      case True
      then have "filter (\<lambda>j. reps ! j = uniq ! b) [fo ! b'..<fo ! Suc b']
                   = [fo ! b'..<fo ! Suc b']"
        using in_group by (intro filter_True) simp
      then show ?thesis using True by simp
    next
      case False
      then have "uniq ! b' \<noteq> uniq ! b" using dist b b' by (simp add: nth_eq_iff_index_eq)
      then have "filter (\<lambda>j. reps ! j = uniq ! b) [fo ! b'..<fo ! Suc b'] = []"
        using in_group by (intro filter_False) simp
      then show ?thesis using False by simp
    qed
  qed
  have "count_list reps (uniq ! b)
          = length (filter (\<lambda>j. reps ! j = uniq ! b)
                      (concat (map (\<lambda>b. [fo ! b..<fo ! Suc b]) [0..<?m])))"
    unfolding index_wf_partition [OF wf] by (rule count_list_by_positions)
  also have "\<dots> = sum_list (map (\<lambda>b'. length (filter (\<lambda>j. reps ! j = uniq ! b)
                                            [fo ! b'..<fo ! Suc b'])) [0..<?m])"
    by (simp add: filter_concat length_concat comp_def)
  also have "\<dots> = sum_list (map (\<lambda>b'. if b' = b then fo ! Suc b' - fo ! b' else 0) [0..<?m])"
    by (rule arg_cong [where f = sum_list], rule map_cong [OF refl]) (rule seg)
  also have "\<dots> = fo ! Suc b - fo ! b" using b by (rule sum_list_single)
  finally show ?thesis .
qed

lemma kept_positions:
  assumes wf: "index_wf reps uniq fo"
  shows "concat (map (\<lambda>b. [fo ! b..<fo ! b + kept_count T fo b]) [0..<length uniq])
           = filter (\<lambda>j. count_list reps (reps ! j) < T) [0..<length reps]"
proof -
  let ?m = "length uniq"
  let ?P = "\<lambda>j. count_list reps (reps ! j) < T"
  have seg: "filter ?P [fo ! b..<fo ! Suc b] = [fo ! b..<fo ! b + kept_count T fo b]"
    if "b \<in> set [0..<?m]" for b
  proof -
    from that have b: "b < ?m" by simp
    have le: "fo ! b < fo ! Suc b" by (rule index_wf_group_nonempty [OF wf b])
    have cnt: "count_list reps (reps ! j) = fo ! Suc b - fo ! b"
      if "j \<in> set [fo ! b..<fo ! Suc b]" for j
      using that index_wf_group [OF wf b, of j] index_wf_count [OF wf b] by simp
    show ?thesis
    proof (cases "fo ! Suc b - fo ! b < T")
      case True
      then have "filter ?P [fo ! b..<fo ! Suc b] = [fo ! b..<fo ! Suc b]"
        using cnt by (intro filter_True) simp
      then show ?thesis using True le by (simp add: kept_count_def)
    next
      case False
      then have "filter ?P [fo ! b..<fo ! Suc b] = []"
        using cnt by (intro filter_False) simp
      then show ?thesis using False by (simp add: kept_count_def)
    qed
  qed
  have "filter ?P [0..<length reps]
          = concat (map (\<lambda>b. filter ?P [fo ! b..<fo ! Suc b]) [0..<?m])"
    unfolding index_wf_partition [OF wf, symmetric] by (simp add: filter_concat comp_def)
  also have "\<dots> = concat (map (\<lambda>b. [fo ! b..<fo ! b + kept_count T fo b]) [0..<?m])"
    by (rule arg_cong [where f = concat], rule map_cong [OF refl]) (rule seg)
  finally show ?thesis by simp
qed

lemma filtered_array_by_positions:
  "filtered_array T fo m arr
     = map (\<lambda>j. arr ! j) (concat (map (\<lambda>b. [fo ! b..<fo ! b + kept_count T fo b]) [0..<m]))"
proof -
  have "map (\<lambda>i. arr ! (fo ! b + i)) [0..<c] = map (\<lambda>j. arr ! j) [fo ! b..<fo ! b + c]" for b c
  proof -
    have "map (\<lambda>i. arr ! (fo ! b + i)) [0..<c]
            = map (\<lambda>j. arr ! j) (map (\<lambda>i. i + fo ! b) [0..<c])"
      by (simp add: add.commute)
    also have "map (\<lambda>i. i + fo ! b) [0..<c] = [fo ! b..<c + fo ! b]" by (rule map_add_upt)
    finally show ?thesis by (simp add: add.commute)
  qed
  then show ?thesis by (simp add: filtered_array_def map_concat comp_def)
qed

lemma filtered_array_eq:
  assumes "index_wf reps uniq fo"
  shows "filtered_array T fo (length uniq) arr
           = map (\<lambda>j. arr ! j)
               (filter (\<lambda>j. count_list reps (reps ! j) < T) [0..<length reps])"
  by (simp only: filtered_array_by_positions kept_positions [OF assms])

lemma filtered_representations_eq:
  assumes "index_wf reps uniq fo"
  shows "filtered_array T fo (length uniq) reps = filter (\<lambda>r. count_list reps r < T) reps"
proof -
  have "filter (\<lambda>r. count_list reps r < T) (map (\<lambda>j. reps ! j) [0..<length reps])
          = map (\<lambda>j. reps ! j)
              (filter (\<lambda>j. count_list reps (reps ! j) < T) [0..<length reps])"
    by (simp add: filter_map comp_def)
  then show ?thesis by (simp add: filtered_array_eq [OF assms] map_nth)
qed

lemma surviving_representations_eq:
  assumes wf: "index_wf reps uniq fo"
  shows "map (\<lambda>b. uniq ! b) (survivors T fo (length uniq))
           = filter (\<lambda>r. count_list reps r < T) uniq"
proof -
  have "survives T fo b \<longleftrightarrow> count_list reps (uniq ! b) < T" if "b \<in> set [0..<length uniq]" for b
  proof -
    from that have b: "b < length uniq" by simp
    show ?thesis
      using index_wf_group_nonempty [OF wf b] index_wf_count [OF wf b]
      by (auto simp: survives_def kept_count_def)
  qed
  then have "survivors T fo (length uniq)
               = filter (\<lambda>b. count_list reps (uniq ! b) < T) [0..<length uniq]"
    unfolding survivors_def by (intro filter_cong) simp_all
  then have "map (\<lambda>b. uniq ! b) (survivors T fo (length uniq))
               = filter (\<lambda>r. count_list reps r < T) (map (\<lambda>b. uniq ! b) [0..<length uniq])"
    by (simp add: filter_map comp_def)
  then show ?thesis by (simp add: map_nth)
qed

lemma count_list_filter:
  "count_list (filter P xs) r = (if P r then count_list xs r else 0)"
  by (induction xs) auto

section \<open>The rounding of the filtering threshold\<close>

text \<open>
  \<open>round_to_nearest_even\<close> is off by at most one half, \<open>binary_exponent x\<close> is the exponent
  of the power of two at or below \<open>\<bar>x\<bar>\<close>, and so \<open>binary64\<close> changes a number by at most
  half a unit in the last of 53 places, or half the spacing of the subnormal numbers.
  The threshold of the filter, three roundings away from \<open>n * p + 1 / 1000\<close>, therefore
  lies between the floors of \<open>n * p + 9 / 10000\<close> and of \<open>n * p + 11 / 10000\<close> when \<open>p\<close> is
  between 0 and 1 and the number of sketch elements fits 32 bits.
\<close>

lemma round_to_nearest_even_error: "\<bar>of_int (round_to_nearest_even y) - y\<bar> \<le> 1 / 2"
proof -
  have "of_int \<lfloor>y\<rfloor> \<le> y" "y < of_int \<lfloor>y\<rfloor> + 1"
    by linarith+
  then show ?thesis
    unfolding round_to_nearest_even_def Let_def by (simp add: abs_if) linarith?
qed

lemma bitlen_powi_bounds:
  assumes "0 < a"
  shows "(2::rat) powi (bitlen a - 1) \<le> of_int a" and "of_int a < (2::rat) powi (bitlen a)"
proof -
  have lo: "2 ^ nat (bitlen a - 1) \<le> a" and hi: "a < 2 ^ nat (bitlen a)"
    using bitlen_bounds [OF assms] by simp_all
  have pos: "0 < bitlen a"
    using assms bitlen_eq_zero_iff [of a] bitlen_nonneg [of a] by linarith
  have "(2::rat) powi (bitlen a - 1) = of_int (2 ^ nat (bitlen a - 1))"
    using pos by (simp add: power_int_nonneg_exp)
  also have "\<dots> \<le> of_int a"
    using lo by (simp only: of_int_le_iff)
  finally show "(2::rat) powi (bitlen a - 1) \<le> of_int a" .
  have "(of_int a :: rat) < of_int (2 ^ nat (bitlen a))"
    using hi by (simp only: of_int_less_iff)
  also have "\<dots> = (2::rat) powi (bitlen a)"
    using pos by (simp add: power_int_nonneg_exp)
  finally show "of_int a < (2::rat) powi (bitlen a)" .
qed

lemma binary_exponent_le:
  assumes "x \<noteq> 0"
  shows "2 powi binary_exponent x \<le> \<bar>x\<bar>"
proof -
  obtain a b where q: "quotient_of \<bar>x\<bar> = (a, b)"
    by (cases "quotient_of \<bar>x\<bar>")
  have b: "0 < b"
    using q by (rule quotient_of_denom_pos)
  have x: "\<bar>x\<bar> = of_int a / of_int b"
    using q by (rule quotient_of_div)
  have "0 < \<bar>x\<bar>"
    using assms by simp
  then have a: "0 < a"
    using b unfolding x by (simp add: zero_less_divide_iff)
  define k where "k = bitlen a - bitlen b"
  have be: "binary_exponent x = (if 2 powi k \<le> \<bar>x\<bar> then k else k - 1)"
    by (simp add: binary_exponent_def q k_def Let_def)
  show ?thesis
  proof (cases "2 powi k \<le> \<bar>x\<bar>")
    case True
    then show ?thesis by (simp add: be)
  next
    case False
    have "k - 1 = (bitlen a - 1) - bitlen b"
      by (simp add: k_def)
    then have "(2::rat) powi (k - 1) = 2 powi (bitlen a - 1) / 2 powi (bitlen b)"
      by (simp only: power_int_diff [of "2::rat", simplified])
    also have "\<dots> \<le> of_int a / of_int b"
    proof (rule frac_le)
      show "(0::rat) \<le> of_int a" using a by simp
      show "(2::rat) powi (bitlen a - 1) \<le> of_int a" using a by (rule bitlen_powi_bounds)
      show "(0::rat) < of_int b" using b by simp
      show "(of_int b :: rat) \<le> 2 powi bitlen b"
        using bitlen_powi_bounds(2) [OF b] by simp
    qed
    finally show ?thesis using False by (simp add: be x)
  qed
qed

lemma binary64_error:
  "\<bar>binary64 x - x\<bar> \<le> \<bar>x\<bar> * 2 powi (- 53) + 2 powi (- 1075)"
proof (cases "x = 0")
  case True
  then show ?thesis by (simp add: binary64_def)
next
  case False
  define e where "e = max (binary_exponent x) (- 1022)"
  define q :: rat where "q = 2 powi (e - 52)"
  have q: "0 < q" by (simp add: q_def)
  have b: "binary64 x = of_int (round_to_nearest_even (x / q)) * q"
    using False by (simp add: binary64_def Let_def e_def q_def)
  have "binary64 x - x = (of_int (round_to_nearest_even (x / q)) - x / q) * q"
    using q by (simp add: b field_simps)
  then have "\<bar>binary64 x - x\<bar> = \<bar>of_int (round_to_nearest_even (x / q)) - x / q\<bar> * q"
    using q by (simp add: abs_mult)
  also have "\<dots> \<le> (1 / 2) * q"
    using q round_to_nearest_even_error [of "x / q"] by (intro mult_right_mono) simp_all
  finally have half: "\<bar>binary64 x - x\<bar> \<le> q * 2 powi (- 1)"
    by (simp add: power_int_minus)
  have "q \<le> \<bar>x\<bar> * 2 powi (- 52) + 2 powi (- 1074)"
  proof (cases "- 1022 \<le> binary_exponent x")
    case True
    then have "q = 2 powi (binary_exponent x) * 2 powi (- 52)"
      unfolding q_def e_def by (simp only: max_absorb1 diff_conv_add_uminus power_int_add [of "2::rat", simplified])
    also have "\<dots> \<le> \<bar>x\<bar> * 2 powi (- 52)"
      using binary_exponent_le [OF False] by (intro mult_right_mono) simp_all
    also have "\<dots> \<le> \<bar>x\<bar> * 2 powi (- 52) + 2 powi (- 1074)"
      by simp
    finally show ?thesis .
  next
    case False
    then have "e = - 1022" by (simp add: e_def)
    then have "q = 2 powi (- 1074)" by (simp add: q_def)
    then show ?thesis by simp
  qed
  then have "q * 2 powi (- 1) \<le> (\<bar>x\<bar> * 2 powi (- 52) + 2 powi (- 1074)) * 2 powi (- 1)"
    by (intro mult_right_mono) simp_all
  also have "\<dots> = \<bar>x\<bar> * (2 powi (- 52) * 2 powi (- 1)) + 2 powi (- 1074) * 2 powi (- 1)"
    by (simp only: distrib_right mult.assoc)
  also have "\<dots> = \<bar>x\<bar> * 2 powi (- 53) + 2 powi (- 1075)"
    by (simp only: power_int_add [of "2::rat", simplified, symmetric]) simp
  finally show ?thesis using half by linarith
qed

lemma binary_exponent_less:
  assumes "x \<noteq> 0"
  shows "\<bar>x\<bar> < 2 powi (binary_exponent x + 1)"
proof -
  obtain a b where q: "quotient_of \<bar>x\<bar> = (a, b)"
    by (cases "quotient_of \<bar>x\<bar>")
  have b: "0 < b"
    using q by (rule quotient_of_denom_pos)
  have x: "\<bar>x\<bar> = of_int a / of_int b"
    using q by (rule quotient_of_div)
  have "0 < \<bar>x\<bar>"
    using assms by simp
  then have a: "0 < a"
    using b unfolding x by (simp add: zero_less_divide_iff)
  define k where "k = bitlen a - bitlen b"
  have be: "binary_exponent x = (if 2 powi k \<le> \<bar>x\<bar> then k else k - 1)"
    by (simp add: binary_exponent_def q k_def Let_def)
  show ?thesis
  proof (cases "2 powi k \<le> \<bar>x\<bar>")
    case True
    have "of_int a / of_int b < (2::rat) powi (bitlen a) / 2 powi (bitlen b - 1)"
    proof (rule frac_less)
      show "(0::rat) \<le> of_int a" using a by simp
      show "of_int a < (2::rat) powi (bitlen a)" using a by (rule bitlen_powi_bounds)
      show "(0::rat) < 2 powi (bitlen b - 1)" by simp
      show "(2::rat) powi (bitlen b - 1) \<le> of_int b" using b by (rule bitlen_powi_bounds)
    qed
    also have "\<dots> = (2::rat) powi (bitlen a - (bitlen b - 1))"
      by (simp only: power_int_diff [of "2::rat", simplified])
    also have "bitlen a - (bitlen b - 1) = k + 1"
      by (simp add: k_def)
    finally show ?thesis using True by (simp add: be x)
  next
    case False
    then show ?thesis by (simp add: be)
  qed
qed

lemma binary64_close:
  assumes "\<bar>x\<bar> \<le> 2 ^ 34"
  shows "\<bar>binary64 x - x\<bar> \<le> 1 / 2 ^ 18"
proof -
  have "\<bar>x\<bar> * 2 powi (- 53) \<le> 2 ^ 34 * 2 powi (- 53)"
    using assms by (intro mult_right_mono) simp_all
  also have "\<dots> = (2::rat) powi (- 19)"
    by (simp add: power_int_minus)
  finally have 1: "\<bar>x\<bar> * 2 powi (- 53) \<le> 2 powi (- 19)" .
  have 2: "(2::rat) powi (- 1075) \<le> 2 powi (- 19)"
    by (rule power_int_increasing) simp_all
  have "\<bar>binary64 x - x\<bar> \<le> 2 powi (- 19) + 2 powi (- 19)"
    using binary64_error [of x] 1 2 by linarith
  also have "\<dots> = 1 / 2 ^ 18"
    by (simp add: power_int_minus)
  finally show ?thesis .
qed

lemma filtering_threshold_bounds:
  assumes "0 \<le> p" and "p \<le> 1" and "n < 2 ^ 32"
  shows "\<lfloor>of_nat n * p + 9 / 10000\<rfloor> \<le> int (filtering_threshold n p)"
    and "int (filtering_threshold n p) \<le> \<lfloor>of_nat n * p + 11 / 10000\<rfloor>"
proof -
  define d :: rat where "d = 1 / 2 ^ 18"
  define N where "N = binary64 (of_nat n)"
  define Np where "Np = N * p"
  define np where "np = of_nat n * p"
  define m where "m = binary64 Np"
  define c where "c = binary64 (1 / 1000)"
  define s where "s = binary64 (m + c)"
  have d: "d = 1 / 262144"
    by (simp add: d_def)
  have "of_nat n < (of_nat (2 ^ 32) :: rat)"
    using assms(3) by (simp only: of_nat_less_iff)
  then have n: "(of_nat n :: rat) \<le> 4294967296"
    by simp
  have n0: "(0::rat) \<le> of_nat n"
    by simp
  have N: "\<bar>N - of_nat n\<bar> \<le> d"
    unfolding N_def d_def using n by (intro binary64_close) simp
  have "Np - np = (N - of_nat n) * p"
    by (simp add: Np_def np_def algebra_simps)
  then have "\<bar>Np - np\<bar> = \<bar>N - of_nat n\<bar> * p"
    using assms(1) by (simp add: abs_mult)
  also have "\<dots> \<le> d * 1"
    using N assms(1,2) by (intro mult_mono) (simp_all add: d)
  finally have Np: "\<bar>Np - np\<bar> \<le> d"
    by simp
  have np0: "0 \<le> np"
    using assms(1) by (simp add: np_def)
  have "np \<le> of_nat n * 1"
    unfolding np_def using assms(2) by (intro mult_left_mono) simp_all
  then have np1: "np \<le> 4294967296"
    using n by simp
  have "\<bar>Np\<bar> \<le> 17179869184"
    using Np np0 np1 unfolding d by linarith
  then have "\<bar>Np\<bar> \<le> 2 ^ 34"
    by simp
  then have m: "\<bar>m - Np\<bar> \<le> d"
    unfolding m_def d_def by (rule binary64_close)
  have c: "\<bar>c - 1 / 1000\<bar> \<le> d"
    unfolding c_def d_def by (intro binary64_close) simp
  have "\<bar>m + c\<bar> \<le> 17179869184"
    using m c Np np0 np1 unfolding d by linarith
  then have "\<bar>m + c\<bar> \<le> 2 ^ 34"
    by simp
  then have s: "\<bar>s - (m + c)\<bar> \<le> d"
    unfolding s_def d_def by (rule binary64_close)
  have lo: "np + 9 / 10000 \<le> s"
    using Np m c s unfolding d by linarith
  have hi: "s \<le> np + 11 / 10000"
    using Np m c s unfolding d by linarith
  have T: "filtering_threshold n p = nat \<lfloor>s\<rfloor>"
    by (simp add: filtering_threshold_def s_def m_def c_def Np_def N_def)
  have "0 \<le> s"
    using lo np0 by simp
  then have "int (filtering_threshold n p) = \<lfloor>s\<rfloor>"
    by (simp add: T)
  then show "\<lfloor>of_nat n * p + 9 / 10000\<rfloor> \<le> int (filtering_threshold n p)"
    and "int (filtering_threshold n p) \<le> \<lfloor>of_nat n * p + 11 / 10000\<rfloor>"
    using lo hi by (simp_all add: np_def floor_mono)
qed

section \<open>The threshold and the representations that the filter removes\<close>

text \<open>
  Claim C1, as stated, fails: the threshold that the filter computes is not always
  \<open>floor (n * p + 0.001)\<close>. With 5
  sketch elements and \<open>filtering_parameter = 0.5998\<close> (the binary64 number nearest to
  \<open>2999 / 5000\<close>, a little below it) the exact sum is below 3 and its floor is 2, but
  the product is rounded to a binary64 number and the program computes 3: in the index
  \<open>[1,1,2,2,2]\<close> the representation 1, which occurs 2 times, is kept. With
  \<open>filtering_parameter = 0.3998\<close> the floor of \<open>5 * (1999 / 5000) + 1 / 1000\<close> is 2, but
  the program computes 1 and removes the representation 1 of the index \<open>[1,2,2,2,2]\<close>,
  which occurs once.
\<close>

theorem filtering_threshold_is_not_the_exact_floor:
  "binary64 (binary64 (2999 / 5000)) = binary64 (2999 / 5000)
   \<and> \<lfloor>5 * binary64 (2999 / 5000) + 1 / 1000\<rfloor> = 2
   \<and> filtering_threshold 5 (binary64 (2999 / 5000)) = 3
   \<and> index_wf [1, 1, 2, 2, 2] [1, 2] [0, 2, 5]
   \<and> count_list [1, 1, 2, 2, 2] (1 :: representation_t) = 2
   \<and> filter_out_most_common_representations (binary64 (2999 / 5000)) [1, 1, 2, 2, 2]
        [0, 1, 2, 3, 4] [10, 11, 12, 13, 14] [FORWARD, REVERSE, FORWARD, REVERSE, FORWARD]
        [1, 2] [0, 2, 5]
      = ([1, 1], [0, 1], [10, 11], [FORWARD, REVERSE], [1], [0, 2])
   \<and> \<lfloor>5 * (1999 / 5000) + 1 / 1000 :: rat\<rfloor> = 2
   \<and> filtering_threshold 5 (binary64 (1999 / 5000)) = 1
   \<and> index_wf [1, 2, 2, 2, 2] [1, 2] [0, 1, 5]
   \<and> count_list [1, 2, 2, 2, 2] (1 :: representation_t) = 1
   \<and> filter_out_most_common_representations (binary64 (1999 / 5000)) [1, 2, 2, 2, 2]
        [0, 1, 2, 3, 4] [10, 11, 12, 13, 14] [FORWARD, REVERSE, FORWARD, REVERSE, FORWARD]
        [1, 2] [0, 1, 5]
      = ([], [], [], [], [], [0])"
  by code_simp

text \<open>
  Claim C1, amended. On a consistent index with \<open>n\<close> sketch elements (the index is
  consistent when \<open>generate_index\<close> calls the filter) the filter works with the
  threshold that binary64 arithmetic gives for \<open>n * p + 0.001\<close>; when \<open>p\<close> is between 0 and
  1 and \<open>n\<close> is below \<open>2 ^ 32\<close>, this threshold is at least \<open>floor (n * p + 0.0009)\<close> and at
  most \<open>floor (n * p + 0.0011)\<close>. The representations that remain are exactly the sketch
  elements, in their order, whose representation occurs less often than the threshold,
  and so are the unique representations: a representation of the index is gone after
  filtering if and only if its number of occurrences is at least the threshold, and a
  representation that survives keeps all its occurrences, fewer than the threshold.
\<close>

theorem most_common_representations_removed:
  assumes "index_wf reps uniq fo"
  shows "(0 \<le> p \<and> p \<le> 1 \<and> length reps < 2 ^ 32 \<longrightarrow>
            \<lfloor>of_nat (length reps) * p + 9 / 10000\<rfloor> \<le> int (filtering_threshold (length reps) p)
            \<and> int (filtering_threshold (length reps) p)
                \<le> \<lfloor>of_nat (length reps) * p + 11 / 10000\<rfloor>)
    \<and> fst (filter_out_most_common_representations p reps rids pos dirs uniq fo)
        = filter (\<lambda>r. count_list reps r < filtering_threshold (length reps) p) reps
    \<and> fst (snd (snd (snd (snd
          (filter_out_most_common_representations p reps rids pos dirs uniq fo)))))
        = filter (\<lambda>r. count_list reps r < filtering_threshold (length reps) p) uniq
    \<and> (\<forall>r \<in> set reps.
          r \<notin> set (fst (filter_out_most_common_representations p reps rids pos dirs uniq fo))
            \<longleftrightarrow> filtering_threshold (length reps) p \<le> count_list reps r)
    \<and> (\<forall>r \<in> set (fst (filter_out_most_common_representations p reps rids pos dirs uniq fo)).
          count_list (fst (filter_out_most_common_representations p reps rids pos dirs uniq fo)) r
            = count_list reps r
          \<and> count_list reps r < filtering_threshold (length reps) p)"
proof -
  let ?T = "filtering_threshold (length reps) p"
  let ?out = "filter_out_most_common_representations p reps rids pos dirs uniq fo"
  from assms have len: "length fo = length uniq + 1" and z: "fo ! 0 = 0"
    by (simp_all add: index_wf_def)
  have bounds: "0 \<le> p \<and> p \<le> 1 \<and> length reps < 2 ^ 32 \<longrightarrow>
            \<lfloor>of_nat (length reps) * p + 9 / 10000\<rfloor> \<le> int ?T
            \<and> int ?T \<le> \<lfloor>of_nat (length reps) * p + 11 / 10000\<rfloor>"
    using filtering_threshold_bounds [of p "length reps"] by blast
  have reps': "fst ?out = filter (\<lambda>r. count_list reps r < ?T) reps"
    unfolding filter_out_eq [OF len z] fst_conv by (rule filtered_representations_eq [OF assms])
  have uniq': "fst (snd (snd (snd (snd ?out)))) = filter (\<lambda>r. count_list reps r < ?T) uniq"
    unfolding filter_out_eq [OF len z] fst_conv snd_conv
    by (rule surviving_representations_eq [OF assms])
  have removed: "\<forall>r \<in> set reps. r \<notin> set (fst ?out) \<longleftrightarrow> ?T \<le> count_list reps r"
    unfolding reps' by auto
  have kept: "\<forall>r \<in> set (fst ?out). count_list (fst ?out) r = count_list reps r
                \<and> count_list reps r < ?T"
    unfolding reps' by (simp add: count_list_filter)
  from bounds reps' uniq' removed kept show ?thesis
    by (intro conjI)
qed

theorem most_common_representations_removed_witness:
  "index_wf [1, 1, 3, 3, 5, 5, 5, 5, 6, 6, 6, 6, 6, 6, 7, 7, 7, 8, 8, 8]
      [1, 3, 5, 6, 7, 8] [0, 2, 4, 8, 14, 17, 20]
   \<and> 0 \<le> binary64 (1 / 5) \<and> binary64 (1 / 5) \<le> 1
   \<and> length [1, 1, 3, 3, 5, 5, 5, 5, 6, 6, 6, 6, 6, 6, 7, 7, 7, 8, 8, 8 :: representation_t]
       < 2 ^ 32
   \<and> \<lfloor>of_nat (length [1, 1, 3, 3, 5, 5, 5, 5, 6, 6, 6, 6, 6, 6, 7, 7, 7, 8, 8, 8
                        :: representation_t]) * binary64 (1 / 5) + 9 / 10000\<rfloor>
       \<le> int (filtering_threshold
                (length [1, 1, 3, 3, 5, 5, 5, 5, 6, 6, 6, 6, 6, 6, 7, 7, 7, 8, 8, 8
                          :: representation_t]) (binary64 (1 / 5)))
   \<and> int (filtering_threshold
             (length [1, 1, 3, 3, 5, 5, 5, 5, 6, 6, 6, 6, 6, 6, 7, 7, 7, 8, 8, 8
                       :: representation_t]) (binary64 (1 / 5)))
       \<le> \<lfloor>of_nat (length [1, 1, 3, 3, 5, 5, 5, 5, 6, 6, 6, 6, 6, 6, 7, 7, 7, 8, 8, 8
                           :: representation_t]) * binary64 (1 / 5) + 11 / 10000\<rfloor>
   \<and> \<lfloor>20 * binary64 (1 / 5) + 9 / 10000\<rfloor> = 4
   \<and> \<lfloor>20 * binary64 (1 / 5) + 11 / 10000\<rfloor> = 4
   \<and> filtering_threshold 20 (binary64 (1 / 5)) = 4
   \<and> fst (filter_out_most_common_representations (binary64 (1 / 5))
        [1, 1, 3, 3, 5, 5, 5, 5, 6, 6, 6, 6, 6, 6, 7, 7, 7, 8, 8, 8]
        [0, 1, 3, 5, 3, 4, 6, 6, 0, 1, 2, 2, 2, 3, 7, 8, 9, 1, 2, 3]
        [0, 0, 1, 1, 4, 5, 8, 9, 3, 6, 7, 8, 9, 5, 4, 7, 3, 7, 8, 9]
        [FORWARD, FORWARD, FORWARD, FORWARD, REVERSE, REVERSE, REVERSE, FORWARD, REVERSE,
         FORWARD, FORWARD, REVERSE, REVERSE, FORWARD, FORWARD, REVERSE, REVERSE, FORWARD,
         FORWARD, FORWARD]
        [1, 3, 5, 6, 7, 8] [0, 2, 4, 8, 14, 17, 20])
     = [1, 1, 3, 3, 7, 7, 7, 8, 8, 8]"
proof -
  let ?reps = "[1, 1, 3, 3, 5, 5, 5, 5, 6, 6, 6, 6, 6, 6, 7, 7, 7, 8, 8, 8] :: representation_t list"
  have wf: "index_wf ?reps [1, 3, 5, 6, 7, 8] [0, 2, 4, 8, 14, 17, 20]"
    by code_simp
  have p0: "0 \<le> binary64 (1 / 5)" by code_simp
  have p1: "binary64 (1 / 5) \<le> 1" by code_simp
  have n: "length ?reps < 2 ^ 32" by simp
  have f: "\<lfloor>20 * binary64 (1 / 5) + 9 / 10000\<rfloor> = 4" by code_simp
  have f': "\<lfloor>20 * binary64 (1 / 5) + 11 / 10000\<rfloor> = 4" by code_simp
  have T: "filtering_threshold 20 (binary64 (1 / 5)) = 4" by code_simp
  have r: "filter (\<lambda>r. count_list ?reps r < filtering_threshold (length ?reps) (binary64 (1 / 5)))
             ?reps
             = [1, 1, 3, 3, 7, 7, 7, 8, 8, 8]"
    by code_simp
  note b = most_common_representations_removed [OF wf, of "binary64 (1 / 5)", THEN conjunct1,
      THEN mp, OF conjI [OF p0 conjI [OF p1 n]]]
  note e = most_common_representations_removed [OF wf, of "binary64 (1 / 5)", THEN conjunct2,
      THEN conjunct1]
  from wf p0 p1 n b [THEN conjunct1] b [THEN conjunct2] f f' T e [THEN trans, OF r]
  show ?thesis by (intro conjI)
qed

section \<open>Order of the sketch elements within a representation\<close>

lemma sorted_wrt_by_key:
  "(\<And>k. sorted_wrt Q (filter (\<lambda>x. f x = k) ys))
     \<Longrightarrow> sorted_wrt (\<lambda>a b. f a = f b \<longrightarrow> Q a b) ys"
proof (induction ys)
  case Nil
  show ?case by simp
next
  case (Cons y ys)
  have tail: "sorted_wrt Q (filter (\<lambda>x. f x = k) ys)" for k
    using Cons.prems [of k] by (cases "f y = k") simp_all
  have "Q y b" if "b \<in> set ys" "f y = f b" for b
    using Cons.prems [of "f y"] that by simp
  then show ?case using Cons.IH [OF tail] by simp
qed

lemma stable_sort_keeps_order:
  assumes "sorted_wrt Q xs"
  shows "sorted_wrt (\<lambda>a b. f a = f b \<longrightarrow> Q a b) (sort_key f xs)"
proof (rule sorted_wrt_by_key)
  fix k
  show "sorted_wrt Q (filter (\<lambda>x. f x = k) (sort_key f xs))"
    unfolding sort_key_stable using assms by (rule sorted_wrt_filter)
qed

lemma sorted_wrt_zip_snd:
  assumes "sorted_wrt Q vs"
  shows "sorted_wrt (\<lambda>a b. Q (snd a) (snd b)) (zip ks vs)"
proof -
  have "sorted_wrt Q (map snd (zip ks vs))"
    unfolding map_snd_zip_take using assms by (rule sorted_wrt_take)
  then show ?thesis by (simp add: sorted_wrt_map)
qed

lemma ordered_sorted_sketch_elements:
  assumes "sorted_wrt read_order vs"
  shows "ordered_within_representations
           (map fst (sort_key fst (zip ks vs)))
           (map (\<lambda>e. read_id_m (snd e)) (sort_key fst (zip ks vs)))
           (map (\<lambda>e. position_in_read_m (snd e)) (sort_key fst (zip ks vs)))"
proof -
  let ?s = "sort_key fst (zip ks vs)"
  have "sorted_wrt (\<lambda>a b. fst a = fst b \<longrightarrow> read_order (snd a) (snd b)) ?s"
    by (rule stable_sort_keeps_order [OF sorted_wrt_zip_snd [OF assms]])
  then have "fst (?s ! i) = fst (?s ! j) \<longrightarrow> read_order (snd (?s ! i)) (snd (?s ! j))"
    if "i < j" "j < length ?s" for i j
    using that by (rule sorted_wrt_nth_less)
  then show ?thesis
    unfolding ordered_within_representations_def read_order_def by simp
qed

lemma ordered_subsequence:
  assumes ord: "ordered_within_representations reps rids pos"
    and idxs: "sorted_wrt (<) idxs" "\<forall>j \<in> set idxs. j < length reps"
  shows "ordered_within_representations (map (\<lambda>j. reps ! j) idxs) (map (\<lambda>j. rids ! j) idxs)
           (map (\<lambda>j. pos ! j) idxs)"
  unfolding ordered_within_representations_def
proof (intro ballI impI)
  fix j i
  assume j: "j \<in> {0..<length (map (\<lambda>j. reps ! j) idxs)}" and i: "i \<in> {0..<j}"
    and eq: "map (\<lambda>j. reps ! j) idxs ! i = map (\<lambda>j. reps ! j) idxs ! j"
  from j i have ij: "i < j" "j < length idxs" "i < length idxs" by simp_all
  then have lt: "idxs ! i < idxs ! j" using idxs(1) by (simp add: sorted_wrt_nth_less)
  have bound: "idxs ! j < length reps" using idxs(2) ij(2) by simp
  from eq ij have "reps ! (idxs ! i) = reps ! (idxs ! j)" by simp
  with ord lt bound
  have "rids ! (idxs ! i) < rids ! (idxs ! j)
          \<or> (rids ! (idxs ! i) = rids ! (idxs ! j) \<and> pos ! (idxs ! i) \<le> pos ! (idxs ! j))"
    unfolding ordered_within_representations_def by simp
  with ij show "map (\<lambda>j. rids ! j) idxs ! i < map (\<lambda>j. rids ! j) idxs ! j
          \<or> (map (\<lambda>j. rids ! j) idxs ! i = map (\<lambda>j. rids ! j) idxs ! j
              \<and> map (\<lambda>j. pos ! j) idxs ! i \<le> map (\<lambda>j. pos ! j) idxs ! j)"
    by simp
qed

lemma ordered_filtered_arrays:
  assumes wf: "index_wf reps uniq fo"
    and ord: "ordered_within_representations reps rids pos"
  shows "ordered_within_representations
           (fst (filter_out_most_common_representations p reps rids pos dirs uniq fo))
           (fst (snd (filter_out_most_common_representations p reps rids pos dirs uniq fo)))
           (fst (snd (snd (filter_out_most_common_representations p reps rids pos dirs uniq
                            fo))))"
proof -
  from wf have len: "length fo = length uniq + 1" and z: "fo ! 0 = 0"
    by (simp_all add: index_wf_def)
  show ?thesis
    unfolding filter_out_eq [OF len z] fst_conv snd_conv filtered_array_eq [OF wf]
    by (rule ordered_subsequence [OF ord]) (simp_all add: sorted_wrt_filter)
qed

lemma index_arrays_wait_to_be_ready:
  "index_arrays (wait_to_be_ready idx) = index_arrays idx"
  by (simp add: index_arrays_def wait_to_be_ready_def split: WayOfConstruciton.splits)

lemma unfiltered_arrays_wf:
  "index_wf (fst (unfiltered_arrays sk))
     (fst (snd (snd (snd (snd (unfiltered_arrays sk))))))
     (snd (snd (snd (snd (snd (unfiltered_arrays sk))))))"
proof -
  have "sorted (map fst (sort_key fst (zip (generated_representations_d sk)
                                          (generated_rest_d sk))))"
    by (rule sorted_sort_key)
  then show ?thesis
    unfolding unfiltered_arrays_def Let_def fst_conv snd_conv
    by (rule index_wf_find_first_occurrences)
qed

lemma unfiltered_arrays_ordered:
  assumes "sorted_wrt read_order (generated_rest_d sk)"
  shows "ordered_within_representations (fst (unfiltered_arrays sk))
           (fst (snd (unfiltered_arrays sk))) (fst (snd (snd (unfiltered_arrays sk))))"
  unfolding unfiltered_arrays_def Let_def fst_conv snd_conv
  by (rule ordered_sorted_sketch_elements [OF assms])

lemma unfiltered_arrays_lengths:
  "length (fst (snd (unfiltered_arrays sk))) = length (fst (unfiltered_arrays sk))"
  "length (fst (snd (snd (unfiltered_arrays sk)))) = length (fst (unfiltered_arrays sk))"
  "length (fst (snd (snd (snd (unfiltered_arrays sk))))) = length (fst (unfiltered_arrays sk))"
  by (simp_all add: unfiltered_arrays_def Let_def)

lemma data_arrays_wait_to_be_ready:
  "data_arrays (wait_to_be_ready idx) = data_arrays idx"
  by (simp add: data_arrays_def wait_to_be_ready_def split: WayOfConstruciton.splits)

lemma data_arrays_of_index_arrays:
  "data_arrays idx
     = (fst (index_arrays idx), fst (snd (index_arrays idx)),
        fst (snd (snd (index_arrays idx))), fst (snd (snd (snd (index_arrays idx)))))"
  by (simp add: data_arrays_def index_arrays_def)

lemma all_sketch_elements:
  assumes "length (fst (snd arrays)) = length (fst arrays)"
    and "length (fst (snd (snd arrays))) = length (fst arrays)"
    and "length (fst (snd (snd (snd arrays)))) = length (fst arrays)"
  shows "sketch_elements_at [0..<length (fst arrays)] arrays
           = (fst arrays, fst (snd arrays), fst (snd (snd arrays)),
              fst (snd (snd (snd arrays))))"
proof -
  have m: "map (\<lambda>j. xs ! j) [0..<n] = xs" if "length xs = n" for xs :: "'a list" and n
    using that map_nth [of xs] by simp
  show ?thesis
    unfolding sketch_elements_at_def
    by (simp only: m [OF refl] m [OF assms(1)] m [OF assms(2)] m [OF assms(3)])
qed

lemma filtered_sketch_elements:
  assumes "index_wf (fst arrays) (fst (snd (snd (snd (snd arrays)))))
             (snd (snd (snd (snd (snd arrays)))))"
  shows "(fst (filter_out_most_common_representations p (fst arrays) (fst (snd arrays))
                 (fst (snd (snd arrays))) (fst (snd (snd (snd arrays))))
                 (fst (snd (snd (snd (snd arrays))))) (snd (snd (snd (snd (snd arrays)))))),
          fst (snd (filter_out_most_common_representations p (fst arrays) (fst (snd arrays))
                 (fst (snd (snd arrays))) (fst (snd (snd (snd arrays))))
                 (fst (snd (snd (snd (snd arrays))))) (snd (snd (snd (snd (snd arrays))))))),
          fst (snd (snd (filter_out_most_common_representations p (fst arrays)
                 (fst (snd arrays)) (fst (snd (snd arrays))) (fst (snd (snd (snd arrays))))
                 (fst (snd (snd (snd (snd arrays))))) (snd (snd (snd (snd (snd arrays)))))))),
          fst (snd (snd (snd (filter_out_most_common_representations p (fst arrays)
                 (fst (snd arrays)) (fst (snd (snd arrays))) (fst (snd (snd (snd arrays))))
                 (fst (snd (snd (snd (snd arrays))))) (snd (snd (snd (snd (snd arrays))))))))))
         = sketch_elements_at
             (kept_sketch_elements (filtering_threshold (length (fst arrays)) p) (fst arrays))
             arrays"
proof -
  from assms have len: "length (snd (snd (snd (snd (snd arrays)))))
                          = length (fst (snd (snd (snd (snd arrays))))) + 1"
    and z: "snd (snd (snd (snd (snd arrays)))) ! 0 = 0"
    by (simp_all add: index_wf_def)
  show ?thesis
    unfolding filter_out_eq [OF len z] filtered_array_eq [OF assms] sketch_elements_at_def
      kept_sketch_elements_def fst_conv snd_conv
    by (rule refl)
qed

lemma filtered_arrays_lengths:
  assumes "length fo = length uniq + 1" "fo ! 0 = 0"
  shows "length (fst (snd (filter_out_most_common_representations p reps rids pos dirs uniq fo)))
           = length (fst (filter_out_most_common_representations p reps rids pos dirs uniq fo))"
    and "length (fst (snd (snd (filter_out_most_common_representations p reps rids pos dirs
                                 uniq fo))))
           = length (fst (filter_out_most_common_representations p reps rids pos dirs uniq fo))"
  unfolding filter_out_eq [OF assms] fst_conv snd_conv filtered_array_by_positions
  by simp_all

lemma filter_case_unfold:
  "(case t of (reps, rids, pos, dirs, uniq, fo) \<Rightarrow> F reps rids pos dirs uniq fo)
     = F (fst t) (fst (snd t)) (fst (snd (snd t))) (fst (snd (snd (snd t))))
         (fst (snd (snd (snd (snd t))))) (snd (snd (snd (snd (snd t)))))"
  by (simp add: case_prod_beta)

lemma generated_index_arrays:
  assumes "generation_reached parser kmer_size window_size (first_read descriptor)
             (first_read descriptor + number_of_reads_in_descriptor descriptor)"
  shows "index_arrays (IndexGPU_generate g parser descriptor kmer_size window_size h p)
        = (if p < 1
           then filter_out_most_common_representations p
                  (fst (unfiltered_arrays (generated_sketch_elements g parser kmer_size
                     window_size (first_read descriptor)
                     (first_read descriptor + number_of_reads_in_descriptor descriptor) h)))
                  (fst (snd (unfiltered_arrays (generated_sketch_elements g parser kmer_size
                     window_size (first_read descriptor)
                     (first_read descriptor + number_of_reads_in_descriptor descriptor) h))))
                  (fst (snd (snd (unfiltered_arrays (generated_sketch_elements g parser
                     kmer_size window_size (first_read descriptor)
                     (first_read descriptor + number_of_reads_in_descriptor descriptor) h)))))
                  (fst (snd (snd (snd (unfiltered_arrays (generated_sketch_elements g parser
                     kmer_size window_size (first_read descriptor)
                     (first_read descriptor + number_of_reads_in_descriptor descriptor) h))))))
                  (fst (snd (snd (snd (snd (unfiltered_arrays (generated_sketch_elements g
                     parser kmer_size window_size (first_read descriptor)
                     (first_read descriptor + number_of_reads_in_descriptor descriptor)
                     h)))))))
                  (snd (snd (snd (snd (snd (unfiltered_arrays (generated_sketch_elements g
                     parser kmer_size window_size (first_read descriptor)
                     (first_read descriptor + number_of_reads_in_descriptor descriptor)
                     h)))))))
           else unfiltered_arrays (generated_sketch_elements g parser kmer_size window_size
                  (first_read descriptor)
                  (first_read descriptor + number_of_reads_in_descriptor descriptor) h))"
proof -
  let ?first = "first_read descriptor"
  let ?past = "first_read descriptor + number_of_reads_in_descriptor descriptor"
  let ?idx0 = "\<lparr>representations_d_m = [], read_ids_d_m = [], positions_in_reads_d_m = [],
        directions_of_reads_d_m = [], unique_representations_d_m = [],
        first_occurrence_of_representations_d_m = [],
        first_read_id_m = first_read descriptor, kmer_size_m = kmer_size,
        window_size_m = window_size, number_of_reads_m = 0,
        number_of_basepairs_in_longest_read_m = 0, way_of_construciton_m = generation,
        is_ready_m = False, index_host_copy_source_m = None\<rparr>"
  from assms have r: "generation_reached parser (kmer_size_m ?idx0) (window_size_m ?idx0)
                    ?first ?past"
    by simp
  show ?thesis
    unfolding IndexGPU_generate_def generate_index_reached [OF r]
      index_arrays_filter_if_requested index_arrays_sort_split_and_group filter_case_unfold
    by simp
qed

lemma generated_index_ordered:
  assumes "sorted_wrt read_order
             (generated_rest_d (generated_sketch_elements g parser kmer_size window_size
                (first_read descriptor)
                (first_read descriptor + number_of_reads_in_descriptor descriptor) h))"
  shows "ordered_within_representations
           (fst (index_arrays (IndexGPU_generate g parser descriptor kmer_size window_size h p)))
           (fst (snd (index_arrays
              (IndexGPU_generate g parser descriptor kmer_size window_size h p))))
           (fst (snd (snd (index_arrays
              (IndexGPU_generate g parser descriptor kmer_size window_size h p)))))
    \<and> length (fst (snd (index_arrays
              (IndexGPU_generate g parser descriptor kmer_size window_size h p))))
        = length (fst (index_arrays
              (IndexGPU_generate g parser descriptor kmer_size window_size h p)))
    \<and> length (fst (snd (snd (index_arrays
              (IndexGPU_generate g parser descriptor kmer_size window_size h p)))))
        = length (fst (index_arrays
              (IndexGPU_generate g parser descriptor kmer_size window_size h p)))"
proof -
  let ?first = "first_read descriptor"
  let ?past = "first_read descriptor + number_of_reads_in_descriptor descriptor"
  let ?sk = "generated_sketch_elements g parser kmer_size window_size ?first ?past h"
  let ?idx0 = "\<lparr>representations_d_m = [], read_ids_d_m = [], positions_in_reads_d_m = [],
        directions_of_reads_d_m = [], unique_representations_d_m = [],
        first_occurrence_of_representations_d_m = [],
        first_read_id_m = first_read descriptor, kmer_size_m = kmer_size,
        window_size_m = window_size, number_of_reads_m = 0,
        number_of_basepairs_in_longest_read_m = 0, way_of_construciton_m = generation,
        is_ready_m = False, index_host_copy_source_m = None\<rparr>"
  let ?u = "unfiltered_arrays ?sk"
  show ?thesis
  proof (cases "generation_reached parser kmer_size window_size ?first ?past")
    case False
    then have nr: "\<not> generation_reached parser (kmer_size_m ?idx0) (window_size_m ?idx0)
                      ?first ?past"
      by simp
    have "index_arrays (IndexGPU_generate g parser descriptor kmer_size window_size h p)
            = ([], [], [], [], [], [])"
      unfolding IndexGPU_generate_def generate_index_not_reached(1) [OF nr]
      by (simp add: index_arrays_def)
    then show ?thesis by (simp add: ordered_within_representations_def)
  next
    case True
    note arrays = generated_index_arrays [OF True, of g h p]
    show ?thesis
    proof (cases "p < 1")
      case False
      then show ?thesis
        unfolding arrays
        using unfiltered_arrays_ordered [OF assms] unfiltered_arrays_lengths [of ?sk]
        by simp
    next
      case True
      have wf: "index_wf (fst ?u) (fst (snd (snd (snd (snd ?u)))))
                  (snd (snd (snd (snd (snd ?u)))))"
        by (rule unfiltered_arrays_wf)
      then have len: "length (snd (snd (snd (snd (snd ?u)))))
                        = length (fst (snd (snd (snd (snd ?u))))) + 1"
        and z: "snd (snd (snd (snd (snd ?u)))) ! 0 = 0"
        by (simp_all add: index_wf_def)
      from True show ?thesis
        unfolding arrays
        using ordered_filtered_arrays [OF wf unfiltered_arrays_ordered [OF assms]]
          filtered_arrays_lengths [OF len z]
        by simp
    qed
  qed
qed

lemma generated_data_arrays:
  assumes "generation_reached parser kmer_size window_size (first_read descriptor)
             (first_read descriptor + number_of_reads_in_descriptor descriptor)"
  shows "data_arrays (IndexGPU_generate g parser descriptor kmer_size window_size h p)
         = sketch_elements_at
             (if p < 1
              then kept_sketch_elements
                     (filtering_threshold
                        (length (fst (unfiltered_arrays (generated_sketch_elements g parser
                           kmer_size window_size (first_read descriptor)
                           (first_read descriptor + number_of_reads_in_descriptor descriptor)
                           h)))) p)
                     (fst (unfiltered_arrays (generated_sketch_elements g parser kmer_size
                        window_size (first_read descriptor)
                        (first_read descriptor + number_of_reads_in_descriptor descriptor) h)))
              else [0..<length (fst (unfiltered_arrays (generated_sketch_elements g parser
                      kmer_size window_size (first_read descriptor)
                      (first_read descriptor + number_of_reads_in_descriptor descriptor) h)))])
             (unfiltered_arrays (generated_sketch_elements g parser kmer_size window_size
                (first_read descriptor)
                (first_read descriptor + number_of_reads_in_descriptor descriptor) h))"
proof -
  let ?sk = "generated_sketch_elements g parser kmer_size window_size (first_read descriptor)
               (first_read descriptor + number_of_reads_in_descriptor descriptor) h"
  let ?u = "unfiltered_arrays ?sk"
  note arrays = generated_index_arrays [OF assms, of g h p]
  show ?thesis
  proof (cases "p < 1")
    case False
    have "data_arrays (IndexGPU_generate g parser descriptor kmer_size window_size h p)
            = (fst ?u, fst (snd ?u), fst (snd (snd ?u)), fst (snd (snd (snd ?u))))"
      unfolding data_arrays_of_index_arrays arrays using False by simp
    also have "\<dots> = sketch_elements_at [0..<length (fst ?u)] ?u"
      by (rule all_sketch_elements [symmetric]) (rule unfiltered_arrays_lengths)+
    finally show ?thesis using False by simp
  next
    case True
    have wf: "index_wf (fst ?u) (fst (snd (snd (snd (snd ?u)))))
                (snd (snd (snd (snd (snd ?u)))))"
      by (rule unfiltered_arrays_wf)
    have "data_arrays (IndexGPU_generate g parser descriptor kmer_size window_size h p)
            = sketch_elements_at
                (kept_sketch_elements (filtering_threshold (length (fst ?u)) p) (fst ?u)) ?u"
      unfolding data_arrays_of_index_arrays arrays if_P [OF True]
      by (rule filtered_sketch_elements [OF wf])
    then show ?thesis using True by simp
  qed
qed

text \<open>
  Claim C5. When the generator emits the sketch elements ordered by read id and, within
  a read, by position, then in the index, for every filtering parameter (so without and
  with the filtering pass), any two sketch elements with the same representation are in
  this order: the read ids within a representation are ascending and, within equal read
  ids, the positions are ascending. The arrays of read ids and of positions are as long
  as the array of representations. When the construction generates sketch elements, the
  data arrays of the index hold the sketch elements of the stably sorted arrays at the
  positions that the filter keeps, in increasing order of the positions: all positions
  when the filtering parameter is at least 1, and otherwise the positions of the
  representations that occur fewer times than the filtering threshold, so that every
  surviving run of a representation is copied whole, contiguously and in its order.
\<close>

theorem order_within_representation_preserved:
  assumes "sorted_wrt read_order
             (generated_rest_d (generated_sketch_elements g parser kmer_size window_size
                (first_read descriptor)
                (first_read descriptor + number_of_reads_in_descriptor descriptor) h))"
  shows "ordered_within_representations
           (representations_d_m
              (wait_to_be_ready (IndexGPU_generate g parser descriptor kmer_size window_size h p)))
           (read_ids_d_m
              (wait_to_be_ready (IndexGPU_generate g parser descriptor kmer_size window_size h p)))
           (positions_in_reads_d_m
              (wait_to_be_ready (IndexGPU_generate g parser descriptor kmer_size window_size h p)))
    \<and> length (read_ids_d_m
              (wait_to_be_ready (IndexGPU_generate g parser descriptor kmer_size window_size h p)))
        = length (representations_d_m
              (wait_to_be_ready (IndexGPU_generate g parser descriptor kmer_size window_size h p)))
    \<and> length (positions_in_reads_d_m
              (wait_to_be_ready (IndexGPU_generate g parser descriptor kmer_size window_size h p)))
        = length (representations_d_m
              (wait_to_be_ready (IndexGPU_generate g parser descriptor kmer_size window_size h p)))
    \<and> (generation_reached parser kmer_size window_size (first_read descriptor)
          (first_read descriptor + number_of_reads_in_descriptor descriptor) \<longrightarrow>
        data_arrays
          (wait_to_be_ready (IndexGPU_generate g parser descriptor kmer_size window_size h p))
        = sketch_elements_at
            (if p < 1
             then kept_sketch_elements
                    (filtering_threshold
                       (length (fst (unfiltered_arrays (generated_sketch_elements g parser
                          kmer_size window_size (first_read descriptor)
                          (first_read descriptor + number_of_reads_in_descriptor descriptor)
                          h)))) p)
                    (fst (unfiltered_arrays (generated_sketch_elements g parser kmer_size
                       window_size (first_read descriptor)
                       (first_read descriptor + number_of_reads_in_descriptor descriptor) h)))
             else [0..<length (fst (unfiltered_arrays (generated_sketch_elements g parser
                     kmer_size window_size (first_read descriptor)
                     (first_read descriptor + number_of_reads_in_descriptor descriptor) h)))])
            (unfiltered_arrays (generated_sketch_elements g parser kmer_size window_size
               (first_read descriptor)
               (first_read descriptor + number_of_reads_in_descriptor descriptor) h)))"
proof -
  note ordered = generated_index_ordered [OF assms, of p]
  have "ordered_within_representations
           (representations_d_m
              (wait_to_be_ready (IndexGPU_generate g parser descriptor kmer_size window_size h p)))
           (read_ids_d_m
              (wait_to_be_ready (IndexGPU_generate g parser descriptor kmer_size window_size h p)))
           (positions_in_reads_d_m
              (wait_to_be_ready (IndexGPU_generate g parser descriptor kmer_size window_size h p)))
    \<and> length (read_ids_d_m
              (wait_to_be_ready (IndexGPU_generate g parser descriptor kmer_size window_size h p)))
        = length (representations_d_m
              (wait_to_be_ready (IndexGPU_generate g parser descriptor kmer_size window_size h p)))
    \<and> length (positions_in_reads_d_m
              (wait_to_be_ready (IndexGPU_generate g parser descriptor kmer_size window_size h p)))
        = length (representations_d_m
              (wait_to_be_ready (IndexGPU_generate g parser descriptor kmer_size window_size h p)))"
    unfolding arrays_of_index_arrays index_arrays_wait_to_be_ready
    by (rule ordered)
  then show ?thesis
    unfolding data_arrays_wait_to_be_ready
    using generated_data_arrays [of parser kmer_size window_size descriptor g h p]
    by blast
qed

theorem order_within_representation_preserved_witness:
  "sorted_wrt read_order
     (generated_rest_d (generated_sketch_elements five_sketch_elements two_reads_parser 4 1
        (first_read \<lparr>first_read = 0, number_of_reads_in_descriptor = 2\<rparr>)
        (first_read \<lparr>first_read = 0, number_of_reads_in_descriptor = 2\<rparr>
           + number_of_reads_in_descriptor \<lparr>first_read = 0, number_of_reads_in_descriptor = 2\<rparr>)
        True))
   \<and> generation_reached two_reads_parser 4 1
        (first_read \<lparr>first_read = 0, number_of_reads_in_descriptor = 2\<rparr>)
        (first_read \<lparr>first_read = 0, number_of_reads_in_descriptor = 2\<rparr>
           + number_of_reads_in_descriptor \<lparr>first_read = 0, number_of_reads_in_descriptor = 2\<rparr>)
   \<and> binary64 (3 / 5) < 1
   \<and> unfiltered_arrays (generated_sketch_elements five_sketch_elements two_reads_parser 4 1
        (first_read \<lparr>first_read = 0, number_of_reads_in_descriptor = 2\<rparr>)
        (first_read \<lparr>first_read = 0, number_of_reads_in_descriptor = 2\<rparr>
           + number_of_reads_in_descriptor \<lparr>first_read = 0, number_of_reads_in_descriptor = 2\<rparr>)
        True)
       = ([3, 3, 3, 7, 7], [0, 0, 1, 0, 1], [0, 2, 1, 1, 0],
          [FORWARD, FORWARD, REVERSE, REVERSE, FORWARD], [3, 7], [0, 3, 5])
   \<and> filtering_threshold 5 (binary64 (3 / 5)) = 3
   \<and> kept_sketch_elements 3 [3, 3, 3, 7, 7] = [3, 4]
   \<and> data_arrays
        (wait_to_be_ready
           (IndexGPU_generate five_sketch_elements two_reads_parser
              \<lparr>first_read = 0, number_of_reads_in_descriptor = 2\<rparr> 4 1 True (binary64 (3 / 5))))
       = ([7, 7], [0, 1], [1, 0], [REVERSE, FORWARD])
   \<and> ordered_within_representations [7, 7] [0, 1] [1, 0]"
proof -
  let ?d = "\<lparr>first_read = 0, number_of_reads_in_descriptor = 2\<rparr>"
  let ?sk = "generated_sketch_elements five_sketch_elements two_reads_parser 4 1
        (first_read ?d) (first_read ?d + number_of_reads_in_descriptor ?d) True"
  let ?idx = "wait_to_be_ready
           (IndexGPU_generate five_sketch_elements two_reads_parser ?d 4 1 True
              (binary64 (3 / 5)))"
  have h: "sorted_wrt read_order (generated_rest_d ?sk)"
    by code_simp
  have r: "generation_reached two_reads_parser 4 1 (first_read ?d)
             (first_read ?d + number_of_reads_in_descriptor ?d)"
    by code_simp
  have p: "binary64 (3 / 5) < 1"
    by code_simp
  have u: "unfiltered_arrays ?sk
       = ([3, 3, 3, 7, 7], [0, 0, 1, 0, 1], [0, 2, 1, 1, 0],
          [FORWARD, FORWARD, REVERSE, REVERSE, FORWARD], [3, 7], [0, 3, 5])"
    by code_simp
  have T: "filtering_threshold 5 (binary64 (3 / 5)) = 3"
    by code_simp
  have K: "kept_sketch_elements 3 [3, 3, 3, 7, 7] = [3, 4]"
    by code_simp
  have e: "sketch_elements_at
            (if binary64 (3 / 5) < 1
             then kept_sketch_elements
                    (filtering_threshold (length (fst (unfiltered_arrays ?sk)))
                       (binary64 (3 / 5)))
                    (fst (unfiltered_arrays ?sk))
             else [0..<length (fst (unfiltered_arrays ?sk))])
            (unfiltered_arrays ?sk)
           = ([7, 7], [0, 1], [1, 0], [REVERSE, FORWARD])"
    by code_simp
  note t = order_within_representation_preserved [OF h, of "binary64 (3 / 5)"]
  note a = t [THEN conjunct2, THEN conjunct2, THEN conjunct2, THEN mp, OF r, THEN trans, OF e]
  have f: "representations_d_m ?idx = [7, 7]" "read_ids_d_m ?idx = [0, 1]"
    "positions_in_reads_d_m ?idx = [1, 0]"
    using a by (simp_all add: data_arrays_def)
  note o = t [THEN conjunct1, unfolded f]
  from h r p u T K a o show ?thesis by (intro conjI)
qed

end
